theory Spec2Isabelle
  imports Main "HOL-Library.Sublist"
begin

section \<open>Data model of \<^verbatim>\<open>src/lib/react_sse.ts\<close>\<close>

text \<open>
  Strings are byte strings (UTF-8), JavaScript numbers that hold counts or millisecond
  timestamps are integers, an optional field is an \<open>option\<close>, and a
  \<^verbatim>\<open>Record<string, V>\<close> is a map from strings.
\<close>

datatype SSEConnectionStatus = Idle | Connecting | Open | Closed | Error

datatype json =
  JNull | JBool bool | JNum int | JStr string | JArr "json list" | JObj "(string \<times> json) list"

text \<open>\<^verbatim>\<open>interface SSEMessage\<close>; the field \<^verbatim>\<open>type\<close> is \<open>type\<close> here too.\<close>

record SSEMessage =
  connectionId :: string
  type :: string
  dataStr :: string
  data :: "json option"
  lastEventId :: "string option"
  timestamp :: int
  uid :: "string option"

text \<open>
  \<^verbatim>\<open>interface SSEConnectionState\<close>; its fields \<^verbatim>\<open>id, url, status, error\<close> carry the
  prefix \<open>cs_\<close> (\<open>id\<close> is a constant of HOL). The interface requires \<^verbatim>\<open>id\<close> and
  \<^verbatim>\<open>url\<close>, but an object of the running program can lack them (\<open>pushEvent\<close> builds
  such an object), so both are options: \<open>None\<close> is \<^verbatim>\<open>undefined\<close>.
\<close>

record SSEConnectionState =
  cs_id :: "string option"
  cs_url :: "string option"
  cs_status :: SSEConnectionStatus
  lastEvent :: "SSEMessage option"
  cs_error :: "string option"

text \<open>\<^verbatim>\<open>interface InternalState\<close>.\<close>

record InternalState =
  connections :: "string \<rightharpoonup> SSEConnectionState"
  events :: "SSEMessage list"

section \<open>The store\<close>

text \<open>
  \<^verbatim>\<open>class Store\<close>. A listener is known by its identity; \<open>listeners\<close> is the
  \<^verbatim>\<open>Set<Listener>\<close> in insertion order, and \<open>invoked\<close> logs every call of a listener,
  oldest first, so that \<^verbatim>\<open>notify()\<close> is observable.
\<close>

type_synonym Listener = nat

record Store =
  maxEvents :: int
  state :: InternalState
  listeners :: "Listener list"
  invoked :: "Listener list"

definition new_Store :: "int \<Rightarrow> Store" where
  "new_Store n =
     \<lparr>maxEvents = n, state = \<lparr>connections = Map.empty, events = []\<rparr>,
      listeners = [], invoked = []\<rparr>"

definition getState :: "Store \<Rightarrow> InternalState" where
  "getState s = state s"

definition subscribe :: "Listener \<Rightarrow> Store \<Rightarrow> Store" where
  "subscribe l s = (if l \<in> set (listeners s) then s else s\<lparr>listeners := listeners s @ [l]\<rparr>)"

definition unsubscribe :: "Listener \<Rightarrow> Store \<Rightarrow> Store" where
  "unsubscribe l s = s\<lparr>listeners := removeAll l (listeners s)\<rparr>"

definition notify :: "Store \<Rightarrow> Store" where
  "notify s = s\<lparr>invoked := invoked s @ listeners s\<rparr>"

text \<open>The property key of a computed key \<^verbatim>\<open>[x]\<close>: \<^verbatim>\<open>undefined\<close> becomes its name.\<close>

definition property_key :: "string option \<Rightarrow> string" where
  "property_key x = (case x of Some k \<Rightarrow> k | None \<Rightarrow> ''undefined'')"

definition setConnection :: "SSEConnectionState \<Rightarrow> Store \<Rightarrow> Store" where
  "setConnection connect s =
     notify (s\<lparr>state := (state s)\<lparr>connections :=
        (connections (state s))(property_key (cs_id connect) \<mapsto> connect)\<rparr>\<rparr>)"

definition removeConnection :: "string \<Rightarrow> Store \<Rightarrow> Store" where
  "removeConnection i s =
     notify (s\<lparr>state := (state s)\<lparr>connections := (connections (state s))(i := None)\<rparr>\<rparr>)"

text \<open>
  \<^verbatim>\<open>Array.prototype.splice(start, deleteCount)\<close> with no items to insert, for a start that
  is 0 in the source: the delete count is clamped to the range from 0 to the length.
\<close>

definition splice0 :: "int \<Rightarrow> 'a list \<Rightarrow> 'a list" where
  "splice0 deleteCount xs = drop (nat (min (max deleteCount 0) (int (length xs)))) xs"

text \<open>
  \<^verbatim>\<open>connections\<close> is a plain object, and the map of the model holds its own properties.
  The read \<^verbatim>\<open>connections[id]\<close> follows the prototype chain: for a name that
  \<^verbatim>\<open>Object.prototype\<close> defines and the object does not, it returns the inherited member
  (a function, or the prototype itself for \<^verbatim>\<open>__proto__\<close>), which is truthy.
\<close>

definition Object_prototype_members :: "string list" where
  "Object_prototype_members =
     [''constructor'', ''__defineGetter__'', ''__defineSetter__'', ''hasOwnProperty'',
      ''__lookupGetter__'', ''__lookupSetter__'', ''isPrototypeOf'', ''propertyIsEnumerable'',
      ''toString'', ''valueOf'', ''__proto__'', ''toLocaleString'']"

datatype property_value = Own SSEConnectionState | Inherited | Undefined

definition get_property :: "(string \<rightharpoonup> SSEConnectionState) \<Rightarrow> string \<Rightarrow> property_value" where
  "get_property m k =
     (case m k of
        Some c \<Rightarrow> Own c
      | None \<Rightarrow> if k \<in> set Object_prototype_members then Inherited else Undefined)"

text \<open>
  \<^verbatim>\<open>pushEvent\<close>. In \<^verbatim>\<open>{...(connections[id] || {id, url: "", status: "open"}), lastEvent,
  status}\<close> the default is taken only for \<^verbatim>\<open>undefined\<close>; an inherited member is truthy,
  and spreading it copies no property (it has no enumerable property of its own), so the
  new entry has a \<^verbatim>\<open>lastEvent\<close> and a \<^verbatim>\<open>status\<close> and nothing else.
\<close>

definition pushEvent :: "SSEMessage \<Rightarrow> Store \<Rightarrow> Store" where
  "pushEvent msg s =
     (let events0 = events (state s) @ [msg];
          events1 = (if int (length events0) > maxEvents s
                     then splice0 (int (length events0) - maxEvents s) events0
                     else events0)
      in notify (s\<lparr>state := (state s)
           \<lparr>events := events1,
            connections := (connections (state s))
              (connectionId msg \<mapsto>
                 (case get_property (connections (state s)) (connectionId msg) of
                    Own c \<Rightarrow> c
                  | Inherited \<Rightarrow> \<lparr>cs_id = None, cs_url = None, cs_status = Open,
                                  lastEvent = None, cs_error = None\<rparr>
                  | Undefined \<Rightarrow> \<lparr>cs_id = Some (connectionId msg), cs_url = Some [],
                                  cs_status = Open, lastEvent = None, cs_error = None\<rparr>)
                 \<lparr>lastEvent := Some msg, cs_status := Open\<rparr>)\<rparr>\<rparr>))"

text \<open>A sequence of \<^verbatim>\<open>pushEvent\<close> calls, in order.\<close>

fun pushEvents :: "SSEMessage list \<Rightarrow> Store \<Rightarrow> Store" where
  "pushEvents [] s = s"
| "pushEvents (m # ms) s = pushEvents ms (pushEvent m s)"

section \<open>The query layer\<close>

text \<open>\<^verbatim>\<open>type EventsFilter\<close>: every field is optional.\<close>

record EventsFilter =
  connectionIds :: "string list option"
  types :: "string list option"
  predicate :: "(SSEMessage \<Rightarrow> bool) option"
  sinceTs :: "int option"

text \<open>
  The value that \<^verbatim>\<open>useSSEEvents\<close> computes from a filter and a store snapshot (the hook
  keeps the value in \<^verbatim>\<open>useMemo\<close>; the cache is not modelled). A test such as
  \<^verbatim>\<open>if (filter.sinceTs)\<close> is JavaScript truthiness: an absent field and the number 0 both
  skip the step, and \<^verbatim>\<open>filter.connectionIds && filter.connectionIds.length\<close> skips an absent
  and an empty array alike.
\<close>

definition useSSEEvents :: "EventsFilter option \<Rightarrow> InternalState \<Rightarrow> SSEMessage list" where
  "useSSEEvents flt s =
     (case flt of
        None \<Rightarrow> events s
      | Some f \<Rightarrow>
          (let out0 = events s;
               out1 = (case sinceTs f of
                         Some t \<Rightarrow> if t \<noteq> 0 then filter (\<lambda>e. timestamp e \<ge> t) out0 else out0
                       | None \<Rightarrow> out0);
               out2 = (case connectionIds f of
                         Some ids \<Rightarrow>
                           if length ids \<noteq> 0 then filter (\<lambda>e. connectionId e \<in> set ids) out1
                           else out1
                       | None \<Rightarrow> out1);
               out3 = (case types f of
                         Some ts \<Rightarrow>
                           if length ts \<noteq> 0 then filter (\<lambda>e. type e \<in> set ts) out2 else out2
                       | None \<Rightarrow> out2);
               out4 = (case predicate f of Some p \<Rightarrow> filter p out3 | None \<Rightarrow> out3)
           in out4))"

text \<open>An argument of type \<^verbatim>\<open>string | string[]\<close>.\<close>

datatype str_or_strs = One string | Many "string list"

text \<open>\<^verbatim>\<open>new Set(Array.isArray(x) ? x : [x])\<close>.\<close>

fun as_set :: "str_or_strs \<Rightarrow> string set" where
  "as_set (One x) = set [x]"
| "as_set (Many xs) = set xs"

text \<open>
  The loop \<^verbatim>\<open>for (let i = arr.length - 1; i >= 0; i--)\<close> of \<^verbatim>\<open>useSSEEvent\<close>; the
  counter of the model is \<open>i + 1\<close>, so the loop starts at \<open>length arr\<close> and ends at 0.
\<close>

fun latest_loop ::
  "string set \<Rightarrow> string set option \<Rightarrow> SSEMessage list \<Rightarrow> nat \<Rightarrow> SSEMessage option" where
  "latest_loop idSet typeSet arr 0 = None"
| "latest_loop idSet typeSet arr (Suc i) =
     (let e = arr ! i in
      if connectionId e \<notin> idSet then latest_loop idSet typeSet arr i
      else if (case typeSet of Some ts \<Rightarrow> type e \<notin> ts | None \<Rightarrow> False)
        then latest_loop idSet typeSet arr i
      else Some e)"

definition useSSEEvent ::
  "str_or_strs \<Rightarrow> str_or_strs option \<Rightarrow> InternalState \<Rightarrow> SSEMessage option" where
  "useSSEEvent cid ty s =
     (let arr = events s;
          idSet = as_set cid;
          typeSet = (case ty of None \<Rightarrow> None | Some t \<Rightarrow> Some (as_set t))
      in latest_loop idSet typeSet arr (length arr))"

text \<open>
  The loop of \<^verbatim>\<open>useLiveSSEEvent\<close>: \<^verbatim>\<open>break\<close> leaves the loop, and the selector then
  returns \<^verbatim>\<open>undefined\<close>.
\<close>

fun live_loop ::
  "int \<Rightarrow> string set \<Rightarrow> string set option \<Rightarrow> SSEMessage list \<Rightarrow> nat \<Rightarrow> SSEMessage option" where
  "live_loop since idSet typeSet arr 0 = None"
| "live_loop since idSet typeSet arr (Suc i) =
     (let e = arr ! i in
      if timestamp e < since then None
      else if connectionId e \<notin> idSet then live_loop since idSet typeSet arr i
      else if (case typeSet of Some ts \<Rightarrow> type e \<notin> ts | None \<Rightarrow> False)
        then live_loop since idSet typeSet arr i
      else Some e)"

text \<open>The selector of \<^verbatim>\<open>useLiveSSEEvent\<close> for the mount instant \<open>since\<close>.\<close>

definition liveSelector ::
  "int \<Rightarrow> str_or_strs \<Rightarrow> str_or_strs option \<Rightarrow> InternalState \<Rightarrow> SSEMessage option" where
  "liveSelector since cid ty s =
     (let arr = events s;
          idSet = as_set cid;
          typeSet = (case ty of None \<Rightarrow> None | Some t \<Rightarrow> Some (as_set t))
      in live_loop since idSet typeSet arr (length arr))"

text \<open>
  The hook itself: \<open>mountTsRef\<close> is the content of the ref (0 before the first render)
  and \<open>now\<close> is what \<^verbatim>\<open>Date.now()\<close> returns; the hook returns the selected event and
  the ref's new content.
\<close>

definition useLiveSSEEvent ::
  "int \<Rightarrow> int \<Rightarrow> str_or_strs \<Rightarrow> str_or_strs option \<Rightarrow> InternalState
     \<Rightarrow> SSEMessage option \<times> int" where
  "useLiveSSEEvent mountTsRef now cid ty s =
     (let r = (if mountTsRef = 0 then now else mountTsRef)
      in (liveSelector r cid ty s, r))"

section \<open>URLs\<close>

text \<open>
  The \<^verbatim>\<open>URL\<close> object of the browser, as far as \<^verbatim>\<open>buildUrl\<close> uses it: \<open>href_base\<close> is
  the serialised scheme, authority and path, \<open>query\<close> the query without its \<^verbatim>\<open>?\<close>,
  \<open>searchParams\<close> the list of the associated \<^verbatim>\<open>URLSearchParams\<close> object, and
  \<open>fragment\<close> the fragment without its \<^verbatim>\<open>#\<close>.
\<close>

record URL =
  href_base :: string
  query :: "string option"
  searchParams :: "(string \<times> string) list"
  fragment :: "string option"

definition is_alnum :: "char \<Rightarrow> bool" where
  "is_alnum c =
     (let n = (of_char c :: nat)
      in (48 \<le> n \<and> n \<le> 57) \<or> (65 \<le> n \<and> n \<le> 90) \<or> (97 \<le> n \<and> n \<le> 122))"

definition hex_digit :: "nat \<Rightarrow> char" where
  "hex_digit n = ''0123456789ABCDEF'' ! n"

definition percent_byte :: "char \<Rightarrow> string" where
  "percent_byte c =
     [CHR ''%'', hex_digit ((of_char c :: nat) div 16), hex_digit ((of_char c :: nat) mod 16)]"

text \<open>
  \<^verbatim>\<open>encodeURIComponent\<close> on a UTF-8 byte string: letters, digits and
  \<^verbatim>\<open>- _ . ! ~ * ' ( )\<close> are kept, every other byte is percent-encoded.
\<close>

definition encodeURIComponent :: "string \<Rightarrow> string" where
  "encodeURIComponent str =
     concat (map (\<lambda>c. if is_alnum c \<or> c \<in> set ''-_.!~*()'' \<or> c = CHR 0x27 then [c]
                         else percent_byte c) str)"

text \<open>
  The serialiser of \<^verbatim>\<open>URLSearchParams\<close> (application/x-www-form-urlencoded): letters,
  digits and \<^verbatim>\<open>* - . _\<close> are kept, a space becomes \<^verbatim>\<open>+\<close>, every other byte is
  percent-encoded; the pairs are joined with \<^verbatim>\<open>&\<close>.
\<close>

definition form_encode :: "string \<Rightarrow> string" where
  "form_encode str =
     concat (map (\<lambda>c. if c = CHR '' '' then ''+''
                         else if is_alnum c \<or> c \<in> set ''*-._'' then [c]
                         else percent_byte c) str)"

text \<open>\<^verbatim>\<open>Array.prototype.join\<close>.\<close>

fun join :: "string \<Rightarrow> string list \<Rightarrow> string" where
  "join sep [] = []"
| "join sep [x] = x"
| "join sep (x # y # ys) = x @ sep @ join sep (y # ys)"

definition form_serialize :: "(string \<times> string) list \<Rightarrow> string" where
  "form_serialize ps = join ''&'' (map (\<lambda>(n, v). form_encode n @ ''='' @ form_encode v) ps)"

text \<open>
  The list operation of \<^verbatim>\<open>URLSearchParams.set(name, value)\<close>: when the name occurs, its
  first pair takes the value and the other pairs of that name are removed; otherwise a
  new pair is appended.
\<close>

fun params_set :: "string \<Rightarrow> string \<Rightarrow> (string \<times> string) list \<Rightarrow> (string \<times> string) list" where
  "params_set n v [] = [(n, v)]"
| "params_set n v ((k, x) # ps) =
     (if k = n then (n, v) # filter (\<lambda>p. fst p \<noteq> n) ps else (k, x) # params_set n v ps)"

text \<open>
  \<^verbatim>\<open>url.searchParams.set(name, value)\<close>: the list is updated and the query of the URL
  becomes its serialisation (no query when that is empty).
\<close>

definition searchParams_set :: "string \<Rightarrow> string \<Rightarrow> URL \<Rightarrow> URL" where
  "searchParams_set n v url =
     (let ps = params_set n v (searchParams url);
          q = form_serialize ps
      in url\<lparr>searchParams := ps, query := (if q = [] then None else Some q)\<rparr>)"

definition URL_toString :: "URL \<Rightarrow> string" where
  "URL_toString url =
     href_base url
     @ (case query url of None \<Rightarrow> [] | Some q \<Rightarrow> ''?'' @ q)
     @ (case fragment url of None \<Rightarrow> [] | Some f \<Rightarrow> ''#'' @ f)"

text \<open>\<^verbatim>\<open>str.endsWith(c)\<close> for a single character.\<close>

definition endsWith :: "string \<Rightarrow> char \<Rightarrow> bool" where
  "endsWith str c = (str \<noteq> [] \<and> last str = c)"

section \<open>The per-tab identity\<close>

text \<open>
  The module state and the part of the browser that \<^verbatim>\<open>getClientUid\<close> touches:
  \<open>cachedUid\<close> is the module variable; \<open>has_window\<close> says that \<^verbatim>\<open>window\<close> is defined;
  \<open>ss_readable\<close> says that \<^verbatim>\<open>window.sessionStorage\<close> and \<^verbatim>\<open>getItem\<close> do not throw,
  \<open>ss_writable\<close> that \<^verbatim>\<open>setItem\<close> does not; \<open>ss_uid\<close> is the item stored under
  \<^verbatim>\<open>UID_STORAGE_KEY\<close>. \<^verbatim>\<open>generateUid\<close> draws from a random source: \<open>entropy\<close> is the
  sequence of identifiers it will produce and \<open>drawn\<close> counts those produced so far.
  \<open>URL_new str\<close> is the browser's \<^verbatim>\<open>new URL(str, window.location.origin)\<close>, with
  \<open>None\<close> when the constructor throws.
\<close>

record world =
  cachedUid :: "string option"
  has_window :: bool
  ss_readable :: bool
  ss_writable :: bool
  ss_uid :: "string option"
  entropy :: "nat \<Rightarrow> string"
  drawn :: nat
  URL_new :: "string \<Rightarrow> URL option"

definition generateUid :: "world \<Rightarrow> string \<times> world" where
  "generateUid w = (entropy w (drawn w), w\<lparr>drawn := Suc (drawn w)\<rparr>)"

text \<open>JavaScript truthiness of a \<^verbatim>\<open>string | undefined\<close>, and \<^verbatim>\<open>x || ""\<close>.\<close>

definition truthy :: "string option \<Rightarrow> bool" where
  "truthy x = (case x of Some c \<Rightarrow> c \<noteq> [] | None \<Rightarrow> False)"

definition or_empty :: "string option \<Rightarrow> string" where
  "or_empty x = (case x of Some c \<Rightarrow> c | None \<Rightarrow> [])"

text \<open>The \<^verbatim>\<open>catch\<close> block of \<^verbatim>\<open>getClientUid\<close>.\<close>

definition uid_in_memory :: "world \<Rightarrow> string \<times> world" where
  "uid_in_memory w = (let (u, w1) = generateUid w in (u, w1\<lparr>cachedUid := Some u\<rparr>))"

text \<open>
  \<^verbatim>\<open>getClientUid\<close>. Inside the \<^verbatim>\<open>try\<close> block the storage may fail to be read, and
  \<^verbatim>\<open>setItem\<close> may throw after an identifier was generated: both enter the \<^verbatim>\<open>catch\<close>
  block, which generates an identifier of its own.
\<close>

definition getClientUid :: "world \<Rightarrow> string \<times> world" where
  "getClientUid w =
     (if truthy (cachedUid w) then (or_empty (cachedUid w), w)
      else if \<not> has_window w then ([], w)
      else if \<not> ss_readable w then uid_in_memory w
      else
        (let uid0 = or_empty (ss_uid w) in
         if uid0 \<noteq> [] then (uid0, w\<lparr>cachedUid := Some uid0\<rparr>)
         else
           (let (u, w1) = generateUid w in
            if ss_writable w1 then (u, w1\<lparr>ss_uid := Some u, cachedUid := Some u\<rparr>)
            else uid_in_memory w1)))"

text \<open>\<^verbatim>\<open>isClientUid(uid?: string | null)\<close>: \<open>None\<close> stands for \<^verbatim>\<open>undefined\<close> and \<^verbatim>\<open>null\<close>.\<close>

definition isClientUid :: "string option \<Rightarrow> world \<Rightarrow> bool \<times> world" where
  "isClientUid u w =
     (if \<not> truthy u then (False, w)
      else (let (c, w1) = getClientUid w in (u = Some c, w1)))"

section \<open>The connection manager\<close>

text \<open>
  \<^verbatim>\<open>buildUrl(urlStr, token, tokenQueryParam = "authToken")\<close>: an absent third argument
  takes the default. The \<^verbatim>\<open>try\<close> block fails only in the constructor of the URL.
\<close>

definition buildUrl :: "string \<Rightarrow> string \<Rightarrow> string option \<Rightarrow> world \<Rightarrow> string \<times> world" where
  "buildUrl urlStr token tokenQueryParam0 w =
     (let tokenQueryParam = (case tokenQueryParam0 of None \<Rightarrow> ''authToken'' | Some k \<Rightarrow> k);
          (uid, w1) = getClientUid w;
          key = (if tokenQueryParam \<noteq> [] then tokenQueryParam else ''authToken'')
      in case URL_new w1 urlStr of
           Some url \<Rightarrow>
             (let url1 = (if uid \<noteq> [] then searchParams_set ''uid'' uid url else url);
                  url2 = (if token \<noteq> [] then searchParams_set key token url1 else url1)
              in (URL_toString url2, w1))
         | None \<Rightarrow>
             (let hasQuery = (CHR ''?'' \<in> set urlStr);
                  parts0 = [];
                  parts1 = (if uid \<noteq> [] then parts0 @ [''uid='' @ encodeURIComponent uid]
                            else parts0);
                  parts2 = (if token \<noteq> []
                            then parts1 @ [encodeURIComponent key @ ''='' @ encodeURIComponent token]
                            else parts1)
              in if \<not> hasQuery then (urlStr @ ''?'' @ join ''&'' parts2, w1)
                 else
                   (let sep = (if endsWith urlStr (CHR ''?'') \<or> endsWith urlStr (CHR ''&'')
                               then [] else ''&'')
                    in (urlStr @ sep @ join ''&'' parts2, w1))))"

text \<open>
  \<^verbatim>\<open>interface ConnectionConfig\<close>, without \<^verbatim>\<open>tokenLoader\<close>: the loader is code of the
  host, and the model receives its outcome.
\<close>

record ConnectionConfig =
  cfg_id :: string
  cfg_url :: string
  tokenQueryParam :: "string option"
  connectOnMount :: "bool option"
  eventTypes :: "string list option"

text \<open>A thrown value is known by its \<^verbatim>\<open>String(e)\<close>.\<close>

type_synonym js_error = string

text \<open>The optional callbacks of the host: each field says whether the callback is supplied.\<close>

record Callbacks =
  onEvent :: bool
  onOpen :: bool
  onError :: bool

datatype host_call = OnEvent SSEMessage | OnOpen string | OnError string js_error

text \<open>An \<^verbatim>\<open>EventSource\<close> created by the manager, with the event names it listens to.\<close>

record EventSource =
  es_url :: string
  es_types :: "string list"
  es_closed :: bool

text \<open>
  \<^verbatim>\<open>class SSEManager\<close>: \<open>sources\<close> maps a connection id to the handle of its
  \<^verbatim>\<open>EventSource\<close>.
\<close>

record SSEManager =
  store :: Store
  sources :: "string \<rightharpoonup> nat"
  callbacks :: Callbacks

text \<open>
  The manager in its environment: \<open>has_EventSource\<close> says that \<^verbatim>\<open>window.EventSource\<close> is
  defined, and \<open>EventSource_accepts url\<close> that \<^verbatim>\<open>new EventSource(url)\<close> returns (it throws
  a \<^verbatim>\<open>SyntaxError\<close> for a URL that the browser cannot parse); \<open>transports\<close> holds every
  \<^verbatim>\<open>EventSource\<close> constructed so far (handle \<open>n\<close> is the \<open>n\<close>-th), \<open>loading\<close> the
  connection attempts whose \<^verbatim>\<open>tokenLoader()\<close> promise is not settled yet, and
  \<open>host_calls\<close> the calls made to the callbacks of the host, oldest first.
\<close>

record runtime =
  world :: world
  has_EventSource :: bool
  EventSource_accepts :: "string \<Rightarrow> bool"
  manager :: SSEManager
  transports :: "EventSource list"
  loading :: "ConnectionConfig list"
  host_calls :: "host_call list"

text \<open>
  \<^verbatim>\<open>connect(cfg)\<close> up to the \<^verbatim>\<open>await\<close>: the two guards, the connecting state, and the
  call of the loader.
\<close>

definition connect :: "ConnectionConfig \<Rightarrow> runtime \<Rightarrow> runtime" where
  "connect cfg r =
     (if \<not> has_window (world r) \<or> \<not> has_EventSource r then r
      else if sources (manager r) (cfg_id cfg) \<noteq> None then r
      else r\<lparr>manager := (manager r)\<lparr>store :=
                 setConnection \<lparr>cs_id = Some (cfg_id cfg), cs_url = Some (cfg_url cfg),
                                cs_status = Connecting,
                                lastEvent = None, cs_error = None\<rparr> (store (manager r))\<rparr>,
             loading := loading r @ [cfg]\<rparr>)"

text \<open>The \<^verbatim>\<open>catch (e)\<close> block after the \<^verbatim>\<open>await\<close>: the loader's promise was rejected with \<open>e\<close>.\<close>

definition connect_rejected :: "ConnectionConfig \<Rightarrow> js_error \<Rightarrow> runtime \<Rightarrow> runtime" where
  "connect_rejected cfg e r =
     r\<lparr>manager := (manager r)\<lparr>store :=
          setConnection \<lparr>cs_id = Some (cfg_id cfg), cs_url = Some (cfg_url cfg),
                         cs_status = Error,
                         lastEvent = None, cs_error = Some (''token: '' @ e)\<rparr> (store (manager r))\<rparr>,
       host_calls := host_calls r
          @ (if onError (callbacks (manager r)) then [OnError (cfg_id cfg) e] else []),
       loading := remove1 cfg (loading r)\<rparr>"

text \<open>
  The code after the \<^verbatim>\<open>await\<close> when the loader's promise was fulfilled with \<open>token\<close>:
  the URL is built and the \<^verbatim>\<open>EventSource\<close> is constructed. When the constructor throws,
  the asynchronous function ends there with nothing registered. Otherwise the
  \<^verbatim>\<open>EventSource\<close> is registered under the id and the listeners are added.
\<close>

definition connect_resolved :: "ConnectionConfig \<Rightarrow> string \<Rightarrow> runtime \<Rightarrow> runtime" where
  "connect_resolved cfg token r =
     (let (fullUrl, w1) =
            buildUrl (cfg_url cfg) token
              (Some (case tokenQueryParam cfg of None \<Rightarrow> ''authToken'' | Some k \<Rightarrow> k)) (world r)
      in if \<not> EventSource_accepts r fullUrl
         then r\<lparr>world := w1, loading := remove1 cfg (loading r)\<rparr>
         else
           (let es = length (transports r);
                tys = (case eventTypes cfg of
                         Some ts \<Rightarrow> if length ts \<noteq> 0 then ts else [''message'']
                       | None \<Rightarrow> [''message''])
            in r\<lparr>world := w1,
                 transports := transports r
                   @ [\<lparr>es_url = fullUrl, es_types = tys, es_closed = False\<rparr>],
                 manager := (manager r)\<lparr>sources := (sources (manager r))(cfg_id cfg \<mapsto> es)\<rparr>,
                 loading := remove1 cfg (loading r)\<rparr>))"

text \<open>\<^verbatim>\<open>disconnect(id)\<close>.\<close>

definition disconnect :: "string \<Rightarrow> runtime \<Rightarrow> runtime" where
  "disconnect i r =
     (let r1 = (case sources (manager r) i of
                  Some src \<Rightarrow>
                    r\<lparr>transports := (if src < length (transports r)
                                       then (transports r)[src := (transports r ! src)\<lparr>es_closed := True\<rparr>]
                                       else transports r),
                      manager := (manager r)\<lparr>sources := (sources (manager r))(i := None)\<rparr>\<rparr>
                | None \<Rightarrow> r)
      in r1\<lparr>manager := (manager r1)\<lparr>store := removeConnection i (store (manager r1))\<rparr>\<rparr>)"

section \<open>The store with its objects on a heap\<close>

text \<open>
  The same store with the object graph written out: \<^verbatim>\<open>this.state\<close> refers to a state
  object, whose fields refer to the \<^verbatim>\<open>connections\<close> object and to the \<^verbatim>\<open>events\<close> array.
  An address is an index into the heap, and allocation appends. An operation returns
  \<open>None\<close> when it follows a reference that holds no object of the expected kind. The
  entries of the connection map and the messages stay values: the store has no
  assignment to a field of either.
\<close>

type_synonym addr = nat

datatype obj =
  StateObj addr addr
| RecordObj "string \<rightharpoonup> SSEConnectionState"
| ArrayObj "SSEMessage list"

type_synonym heap = "obj list"

definition alloc :: "obj \<Rightarrow> heap \<Rightarrow> addr \<times> heap" where
  "alloc ob h = (length h, h @ [ob])"

definition get_state :: "heap \<Rightarrow> addr \<Rightarrow> (addr \<times> addr) option" where
  "get_state h a =
     (if a < length h then (case h ! a of StateObj c e \<Rightarrow> Some (c, e) | _ \<Rightarrow> None) else None)"

definition get_record :: "heap \<Rightarrow> addr \<Rightarrow> (string \<rightharpoonup> SSEConnectionState) option" where
  "get_record h a =
     (if a < length h then (case h ! a of RecordObj m \<Rightarrow> Some m | _ \<Rightarrow> None) else None)"

definition get_array :: "heap \<Rightarrow> addr \<Rightarrow> SSEMessage list option" where
  "get_array h a =
     (if a < length h then (case h ! a of ArrayObj xs \<Rightarrow> Some xs | _ \<Rightarrow> None) else None)"

text \<open>What a reference to a state object, such as one returned by \<^verbatim>\<open>getState()\<close>, shows.\<close>

definition deref :: "heap \<Rightarrow> addr \<Rightarrow> InternalState option" where
  "deref h a =
     (case get_state h a of
        None \<Rightarrow> None
      | Some (c, e) \<Rightarrow>
          (case get_record h c of
             None \<Rightarrow> None
           | Some m \<Rightarrow>
               (case get_array h e of
                  None \<Rightarrow> None
                | Some evs \<Rightarrow> Some \<lparr>connections = m, events = evs\<rparr>)))"

record RStore =
  r_maxEvents :: int
  r_state :: addr
  r_listeners :: "Listener list"
  r_invoked :: "Listener list"

definition r_notify :: "RStore \<Rightarrow> RStore" where
  "r_notify s = s\<lparr>r_invoked := r_invoked s @ r_listeners s\<rparr>"

definition r_getState :: "RStore \<Rightarrow> addr" where
  "r_getState s = r_state s"

definition r_setConnection :: "SSEConnectionState \<Rightarrow> RStore \<times> heap \<Rightarrow> (RStore \<times> heap) option" where
  "r_setConnection conn sh =
     (let (s, h) = sh in
      case get_state h (r_state s) of
        None \<Rightarrow> None
      | Some (c, e) \<Rightarrow>
          (case get_record h c of
             None \<Rightarrow> None
           | Some m \<Rightarrow>
               (let (c1, h1) = alloc (RecordObj (m(property_key (cs_id conn) \<mapsto> conn))) h;
                    (s1, h2) = alloc (StateObj c1 e) h1
                in Some (r_notify (s\<lparr>r_state := s1\<rparr>), h2))))"

definition r_removeConnection :: "string \<Rightarrow> RStore \<times> heap \<Rightarrow> (RStore \<times> heap) option" where
  "r_removeConnection i sh =
     (let (s, h) = sh in
      case get_state h (r_state s) of
        None \<Rightarrow> None
      | Some (c, e) \<Rightarrow>
          (case get_record h c of
             None \<Rightarrow> None
           | Some m \<Rightarrow>
               (let (c1, h1) = alloc (RecordObj (m(i := None))) h;
                    (s1, h2) = alloc (StateObj c1 e) h1
                in Some (r_notify (s\<lparr>r_state := s1\<rparr>), h2))))"

text \<open>
  In \<^verbatim>\<open>pushEvent\<close> the array \<^verbatim>\<open>[...this.state.events, msg]\<close> is a new object, and
  \<^verbatim>\<open>splice\<close> then writes to that object in place.
\<close>

definition r_pushEvent :: "SSEMessage \<Rightarrow> RStore \<times> heap \<Rightarrow> (RStore \<times> heap) option" where
  "r_pushEvent msg sh =
     (let (s, h) = sh in
      case get_state h (r_state s) of
        None \<Rightarrow> None
      | Some (c, e) \<Rightarrow>
          (case get_array h e of
             None \<Rightarrow> None
           | Some old \<Rightarrow>
               (case get_record h c of
                  None \<Rightarrow> None
                | Some m \<Rightarrow>
                    (let events0 = old @ [msg];
                         (e1, h1) = alloc (ArrayObj events0) h;
                         h2 = (if int (length events0) > r_maxEvents s
                               then h1[e1 := ArrayObj (splice0 (int (length events0) - r_maxEvents s) events0)]
                               else h1);
                         (c1, h3) = alloc (RecordObj (m(connectionId msg \<mapsto>
                              (case get_property m (connectionId msg) of
                                 Own cs \<Rightarrow> cs
                               | Inherited \<Rightarrow> \<lparr>cs_id = None, cs_url = None, cs_status = Open,
                                               lastEvent = None, cs_error = None\<rparr>
                               | Undefined \<Rightarrow> \<lparr>cs_id = Some (connectionId msg),
                                               cs_url = Some [], cs_status = Open,
                                               lastEvent = None, cs_error = None\<rparr>)
                              \<lparr>lastEvent := Some msg, cs_status := Open\<rparr>))) h2;
                         (s1, h4) = alloc (StateObj c1 e1) h3
                     in Some (r_notify (s\<lparr>r_state := s1\<rparr>), h4)))))"

text \<open>The three state-mutating operations of the store, and a sequence of them.\<close>

datatype mutation =
  SetConnection SSEConnectionState
| RemoveConnection string
| PushEvent SSEMessage

fun r_apply :: "mutation \<Rightarrow> RStore \<times> heap \<Rightarrow> (RStore \<times> heap) option" where
  "r_apply (SetConnection c) sh = r_setConnection c sh"
| "r_apply (RemoveConnection i) sh = r_removeConnection i sh"
| "r_apply (PushEvent m) sh = r_pushEvent m sh"

fun r_apply_all :: "mutation list \<Rightarrow> RStore \<times> heap \<Rightarrow> (RStore \<times> heap) option" where
  "r_apply_all [] sh = Some sh"
| "r_apply_all (x # xs) sh =
     (case r_apply x sh of None \<Rightarrow> None | Some sh1 \<Rightarrow> r_apply_all xs sh1)"

fun apply_mutation :: "mutation \<Rightarrow> Store \<Rightarrow> Store" where
  "apply_mutation (SetConnection c) s = setConnection c s"
| "apply_mutation (RemoveConnection i) s = removeConnection i s"
| "apply_mutation (PushEvent m) s = pushEvent m s"

text \<open>The store that a heap store stands for.\<close>

definition abs_store :: "RStore \<times> heap \<Rightarrow> Store option" where
  "abs_store sh =
     (let (s, h) = sh in
      case deref h (r_state s) of
        None \<Rightarrow> None
      | Some st \<Rightarrow> Some \<lparr>maxEvents = r_maxEvents s, state = st,
                          listeners = r_listeners s, invoked = r_invoked s\<rparr>)"

text \<open>\<^verbatim>\<open>new Store(maxEvents)\<close> on an empty heap.\<close>

definition r_new_Store :: "int \<Rightarrow> RStore \<times> heap" where
  "r_new_Store n =
     (\<lparr>r_maxEvents = n, r_state = 2, r_listeners = [], r_invoked = []\<rparr>,
      [RecordObj Map.empty, ArrayObj [], StateObj 0 1])"

section \<open>Sample values and the readings of the specification\<close>

definition sample_event :: "string \<Rightarrow> string \<Rightarrow> int \<Rightarrow> SSEMessage" where
  "sample_event c t ts =
     \<lparr>connectionId = c, type = t, dataStr = [], data = None, lastEventId = None,
      timestamp = ts, uid = None\<rparr>"

definition no_filter :: EventsFilter where
  "no_filter = \<lparr>connectionIds = None, types = None, predicate = None, sinceTs = None\<rparr>"

text \<open>
  The filtered query as the specification words it, to compare with \<open>useSSEEvents\<close>: every
  condition that the filter supplies is applied.
\<close>

definition spec_events :: "EventsFilter \<Rightarrow> InternalState \<Rightarrow> SSEMessage list" where
  "spec_events f s =
     filter (\<lambda>e. (case sinceTs f of Some t \<Rightarrow> t \<le> timestamp e | None \<Rightarrow> True)
               \<and> (case connectionIds f of Some ids \<Rightarrow> connectionId e \<in> set ids | None \<Rightarrow> True)
               \<and> (case types f of Some ts \<Rightarrow> type e \<in> set ts | None \<Rightarrow> True)
               \<and> (case predicate f of Some p \<Rightarrow> p e | None \<Rightarrow> True)) (events s)"

text \<open>
  A browser for the examples: a window with an empty, working session storage, a random
  source that produces \<open>u0\<close>, \<open>u1\<close>, \<open>u1\<close>, ..., and a URL constructor known at three
  absolute URLs only (a string with a space in its host, as in the examples of the
  fallback path, is rejected by every browser).
\<close>

definition sample_entropy :: "nat \<Rightarrow> string" where
  "sample_entropy n = (if n = 0 then ''u0'' else ''u1'')"

definition sample_URL_new :: "string \<Rightarrow> URL option" where
  "sample_URL_new str =
     (if str = ''https://x/sse''
      then Some \<lparr>href_base = ''https://x/sse'', query = None, searchParams = [],
                 fragment = None\<rparr>
      else if str = ''https://x/sse?room=1''
      then Some \<lparr>href_base = ''https://x/sse'', query = Some ''room=1'',
                 searchParams = [(''room'', ''1'')], fragment = None\<rparr>
      else if str = ''https://x/sse?authToken=old''
      then Some \<lparr>href_base = ''https://x/sse'', query = Some ''authToken=old'',
                 searchParams = [(''authToken'', ''old'')], fragment = None\<rparr>
      else None)"

definition sample_world :: world where
  "sample_world =
     \<lparr>cachedUid = None, has_window = True, ss_readable = True, ss_writable = True,
      ss_uid = None, entropy = sample_entropy, drawn = 0, URL_new = sample_URL_new\<rparr>"

text \<open>
  The connection URL as the specification words it, to compare with \<open>buildUrl\<close>:
  \<^verbatim>\<open><base-url>[?|&]uid=<identity>&<credentialKey>=<credential>\<close>, joined with \<^verbatim>\<open>?\<close> when
  the base URL has no query string and with \<^verbatim>\<open>&\<close> otherwise.
\<close>

definition spec_connection_url :: "string \<Rightarrow> string \<Rightarrow> string \<Rightarrow> string \<Rightarrow> string" where
  "spec_connection_url base ident key cred =
     base @ (if CHR ''?'' \<notin> set base then ''?'' else ''&'')
     @ ''uid='' @ ident @ ''&'' @ key @ ''='' @ cred"

text \<open>
  A manager for the examples: a browser with \<^verbatim>\<open>EventSource\<close>, whose constructor is known
  to accept the URLs of the host \<open>x\<close> (everything after the host is path and query, which
  always parse), a new store of capacity 500 with one listener, all three callbacks
  supplied, nothing connected.
\<close>

definition sample_EventSource_accepts :: "string \<Rightarrow> bool" where
  "sample_EventSource_accepts url = (take 10 url = ''https://x/'')"

definition sample_runtime :: runtime where
  "sample_runtime =
     \<lparr>world = sample_world, has_EventSource = True,
      EventSource_accepts = sample_EventSource_accepts,
      manager = \<lparr>store = subscribe 7 (new_Store 500), sources = Map.empty,
                 callbacks = \<lparr>onEvent = True, onOpen = True, onError = True\<rparr>\<rparr>,
      transports = [], loading = [], host_calls = []\<rparr>"

definition sample_cfg :: ConnectionConfig where
  "sample_cfg =
     \<lparr>cfg_id = ''a'', cfg_url = ''https://x/sse'', tokenQueryParam = None,
      connectOnMount = None, eventTypes = None\<rparr>"

section \<open>The bounded event log\<close>

lemma maxEvents_pushEvent: "maxEvents (pushEvent m s) = maxEvents s"
  by (simp add: pushEvent_def notify_def Let_def)

lemma events_pushEvent:
  "0 \<le> maxEvents s \<Longrightarrow>
   events (state (pushEvent m s)) =
     drop (Suc (length (events (state s))) - nat (maxEvents s)) (events (state s) @ [m])"
  by (simp add: pushEvent_def notify_def Let_def splice0_def min_def max_def nat_diff_distrib nat_add_distrib)

lemma maxEvents_pushEvents: "maxEvents (pushEvents ms s) = maxEvents s"
  by (induction ms arbitrary: s) (simp_all add: maxEvents_pushEvent)

lemma drop_after_push:
  assumes "length xs = C"
  shows "drop (length (drop 1 (xs @ [m]) @ ms) - C) (drop 1 (xs @ [m]) @ ms) =
         drop (length (xs @ m # ms) - C) (xs @ m # ms)"
proof -
  have z: "drop 1 (xs @ [m]) @ ms = drop 1 (xs @ m # ms)"
    by (cases xs) simp_all
  have "drop (length (drop 1 (xs @ m # ms)) - C) (drop 1 (xs @ m # ms)) =
        drop (length ms + 1) (xs @ m # ms)"
    using assms by (simp del: drop_append)
  moreover have "length (xs @ m # ms) - C = length ms + 1"
    using assms by simp
  ultimately show ?thesis
    by (simp only: z)
qed

lemma events_pushEvents:
  "int (length (events (state s))) \<le> maxEvents s \<Longrightarrow>
   events (state (pushEvents ms s)) =
     drop (length (events (state s) @ ms) - nat (maxEvents s)) (events (state s) @ ms)"
proof (induction ms arbitrary: s)
  case Nil
  then show ?case by simp
next
  case (Cons m ms)
  have nn: "0 \<le> maxEvents s" using Cons.prems by linarith
  let ?s1 = "pushEvent m s"
  have e1: "events (state ?s1) =
     drop (Suc (length (events (state s))) - nat (maxEvents s)) (events (state s) @ [m])"
    using nn by (rule events_pushEvent)
  have len1: "int (length (events (state ?s1))) \<le> maxEvents ?s1"
    using Cons.prems by (simp add: e1 maxEvents_pushEvent)
  have ih: "events (state (pushEvents (m # ms) s)) =
     drop (length (events (state ?s1) @ ms) - nat (maxEvents s)) (events (state ?s1) @ ms)"
    using Cons.IH [OF len1] by (simp only: pushEvents.simps maxEvents_pushEvent)
  show ?case
  proof (cases "int (length (events (state s))) < maxEvents s")
    case True
    then have "events (state ?s1) = events (state s) @ [m]"
      by (simp add: e1)
    then show ?thesis
      by (simp only: ih append_assoc append_Cons append_Nil)
  next
    case False
    with Cons.prems have eq: "length (events (state s)) = nat (maxEvents s)"
      by linarith
    then have y: "events (state ?s1) = drop 1 (events (state s) @ [m])"
      by (simp add: e1)
    show ?thesis
      by (simp only: ih y drop_after_push [OF eq])
  qed
qed

text \<open>
  Claim C1. Take a store whose log is within a capacity \<open>maxEvents\<close> (the new store is
  one when the capacity is not negative). After any sequence of \<^verbatim>\<open>pushEvent\<close> calls the
  log is no longer than the capacity, and it is the old log followed by the appended
  events in arrival order with the oldest entries dropped: a suffix of that sequence.
\<close>

theorem pushEvents_bounded_fifo:
  assumes "int (length (events (state s))) \<le> maxEvents s"
  shows "int (length (events (state (pushEvents ms s)))) \<le> maxEvents s
       \<and> events (state (pushEvents ms s)) =
           drop (length (events (state s) @ ms) - nat (maxEvents s)) (events (state s) @ ms)
       \<and> suffix (events (state (pushEvents ms s))) (events (state s) @ ms)"
proof -
  have e: "events (state (pushEvents ms s)) =
           drop (length (events (state s) @ ms) - nat (maxEvents s)) (events (state s) @ ms)"
    using assms by (rule events_pushEvents)
  have "0 \<le> maxEvents s" using assms by linarith
  then have "int (length (events (state (pushEvents ms s)))) \<le> maxEvents s"
    unfolding e by simp
  moreover have "suffix (events (state (pushEvents ms s))) (events (state s) @ ms)"
    unfolding e by (rule suffix_drop)
  ultimately show ?thesis using e by blast
qed

theorem pushEvents_bounded_fifo_witness:
  "int (length (events (state (new_Store 2)))) \<le> maxEvents (new_Store 2)
   \<and> events (state (pushEvents
         [sample_event ''a'' ''message'' 1, sample_event ''a'' ''message'' 2,
          sample_event ''a'' ''message'' 3] (new_Store 2))) =
       [sample_event ''a'' ''message'' 2, sample_event ''a'' ''message'' 3]"
  using pushEvents_bounded_fifo [of "new_Store 2"
      "[sample_event ''a'' ''message'' 1, sample_event ''a'' ''message'' 2,
        sample_event ''a'' ''message'' 3]"]
  by (simp add: new_Store_def)

section \<open>The effect of one \<^verbatim>\<open>pushEvent\<close>\<close>

text \<open>
  What \<^verbatim>\<open>pushEvent e\<close> does when the read \<^verbatim>\<open>connections[e.connectionId]\<close> finds an own
  entry or nothing at all. The new log is a suffix of the old log followed by \<open>e\<close> (what
  eviction leaves of it), it is exactly the old log followed by \<open>e\<close> while the capacity
  is not reached, and for a capacity of at least 1 its newest entry is \<open>e\<close>. The
  connection state stored under \<open>connectionId e\<close> becomes the previous entry with status
  \<open>Open\<close> and \<open>lastEvent = e\<close>, or the minimal entry (that id, an empty url, no error)
  when there was none; every other entry of the connection map is unchanged. The
  listeners are called once each: one \<^verbatim>\<open>notify()\<close> for the combined change.
\<close>

lemma pushEvent_effect:
  assumes "connections (state s) (connectionId e) \<noteq> None
           \<or> connectionId e \<notin> set Object_prototype_members"
  shows "suffix (events (state (pushEvent e s))) (events (state s) @ [e])
   \<and> (int (length (events (state s))) < maxEvents s \<longrightarrow>
        events (state (pushEvent e s)) = events (state s) @ [e])
   \<and> (1 \<le> maxEvents s \<longrightarrow>
        events (state (pushEvent e s)) \<noteq> [] \<and> last (events (state (pushEvent e s))) = e)
   \<and> connections (state (pushEvent e s)) (connectionId e) =
        Some (case connections (state s) (connectionId e) of
                Some c \<Rightarrow> c\<lparr>lastEvent := Some e, cs_status := Open\<rparr>
              | None \<Rightarrow> \<lparr>cs_id = Some (connectionId e), cs_url = Some [], cs_status = Open,
                         lastEvent = Some e, cs_error = None\<rparr>)
   \<and> (\<forall>i. i \<noteq> connectionId e \<longrightarrow>
          connections (state (pushEvent e s)) i = connections (state s) i)
   \<and> invoked (pushEvent e s) = invoked s @ listeners s
   \<and> listeners (pushEvent e s) = listeners s
   \<and> maxEvents (pushEvent e s) = maxEvents s"
proof -
  have ev: "events (state (pushEvent e s)) =
      (if int (length (events (state s) @ [e])) > maxEvents s
       then splice0 (int (length (events (state s) @ [e])) - maxEvents s) (events (state s) @ [e])
       else events (state s) @ [e])"
    by (simp add: pushEvent_def notify_def Let_def)
  have 1: "suffix (events (state (pushEvent e s))) (events (state s) @ [e])"
  proof (cases "int (length (events (state s) @ [e])) > maxEvents s")
    case True
    then have "events (state (pushEvent e s)) =
        drop (nat (min (max (int (length (events (state s) @ [e])) - maxEvents s) 0)
                (int (length (events (state s) @ [e]))))) (events (state s) @ [e])"
      by (simp only: ev splice0_def if_True)
    then show ?thesis by (simp only: suffix_drop)
  next
    case False
    then have "events (state (pushEvent e s)) = events (state s) @ [e]"
      by (simp only: ev if_False)
    then show ?thesis by (simp only: suffix_order.refl)
  qed
  have 2: "int (length (events (state s))) < maxEvents s \<longrightarrow>
        events (state (pushEvent e s)) = events (state s) @ [e]"
    unfolding ev by simp
  have 3: "1 \<le> maxEvents s \<longrightarrow>
        events (state (pushEvent e s)) \<noteq> [] \<and> last (events (state (pushEvent e s))) = e"
  proof
    assume c: "1 \<le> maxEvents s"
    let ?xs = "events (state s) @ [e]"
    show "events (state (pushEvent e s)) \<noteq> [] \<and> last (events (state (pushEvent e s))) = e"
    proof (cases "int (length ?xs) > maxEvents s")
      case False
      then show ?thesis unfolding ev by simp
    next
      case True
      define k where "k = nat (min (max (int (length ?xs) - maxEvents s) 0) (int (length ?xs)))"
      have k: "k < length ?xs" using c True by (simp add: k_def)
      have "events (state (pushEvent e s)) = drop k ?xs"
        using True unfolding ev splice0_def k_def by simp
      moreover have "drop k ?xs \<noteq> []" using k by simp
      moreover have "last (drop k ?xs) = e" using k by (simp add: last_drop del: drop_append)
      ultimately show ?thesis by simp
    qed
  qed
  have 4: "connections (state (pushEvent e s)) (connectionId e) =
        Some (case connections (state s) (connectionId e) of
                Some c \<Rightarrow> c\<lparr>lastEvent := Some e, cs_status := Open\<rparr>
              | None \<Rightarrow> \<lparr>cs_id = Some (connectionId e), cs_url = Some [], cs_status = Open,
                         lastEvent = Some e, cs_error = None\<rparr>)"
    using assms
    by (auto simp: pushEvent_def notify_def Let_def get_property_def split: option.splits)
  have 5: "\<forall>i. i \<noteq> connectionId e \<longrightarrow>
          connections (state (pushEvent e s)) i = connections (state s) i"
    by (simp add: pushEvent_def notify_def Let_def)
  have 6: "invoked (pushEvent e s) = invoked s @ listeners s"
    "listeners (pushEvent e s) = listeners s" "maxEvents (pushEvent e s) = maxEvents s"
    by (simp_all add: pushEvent_def notify_def Let_def)
  from 1 2 3 4 5 6 show ?thesis by blast
qed

text \<open>
  Claim C5 asks, for every event \<open>e\<close>, that \<^verbatim>\<open>pushEvent e\<close> creates a minimal
  connection-state entry when none exists for \<open>connectionId e\<close>. The code does not do so
  for an id that names a member of \<^verbatim>\<open>Object.prototype\<close>: on a new store, an event of the
  connection \<open>constructor\<close> finds the inherited member instead of nothing, the default
  entry is skipped, and the entry stored has neither id nor url.
\<close>

theorem pushEvent_inherited_member:
  "connections (state (new_Store 5)) ''constructor'' = None
   \<and> connections (state (pushEvent (sample_event ''constructor'' ''message'' 1) (new_Store 5)))
         ''constructor'' =
       Some \<lparr>cs_id = None, cs_url = None, cs_status = Open,
             lastEvent = Some (sample_event ''constructor'' ''message'' 1), cs_error = None\<rparr>
   \<and> connections (state (pushEvent (sample_event ''constructor'' ''message'' 1) (new_Store 5)))
         ''constructor'' \<noteq>
       Some \<lparr>cs_id = Some ''constructor'', cs_url = Some [], cs_status = Open,
             lastEvent = Some (sample_event ''constructor'' ''message'' 1), cs_error = None\<rparr>"
  by (simp add: new_Store_def pushEvent_def notify_def get_property_def
      Object_prototype_members_def sample_event_def Let_def)

section \<open>The filtered event list\<close>

text \<open>
  Claim C2, as the code has it. With a filter, \<open>useSSEEvents\<close> returns the events of the
  log, in their order, that pass every condition the code applies (so the result is a
  subsequence of the log). The code applies a condition only when the field is truthy:
  \<open>sinceTs\<close> when it is a number other than 0, \<open>connectionIds\<close> and \<open>types\<close> when they
  are non-empty arrays, \<open>predicate\<close> when it is present. Without a filter the log itself
  is returned.
\<close>

theorem useSSEEvents_filter:
  "useSSEEvents (Some f) s =
     filter (\<lambda>e. (case sinceTs f of Some t \<Rightarrow> t = 0 \<or> t \<le> timestamp e | None \<Rightarrow> True)
               \<and> (case connectionIds f of
                     Some ids \<Rightarrow> ids = [] \<or> connectionId e \<in> set ids | None \<Rightarrow> True)
               \<and> (case types f of Some ts \<Rightarrow> ts = [] \<or> type e \<in> set ts | None \<Rightarrow> True)
               \<and> (case predicate f of Some p \<Rightarrow> p e | None \<Rightarrow> True)) (events s)
   \<and> subseq (useSSEEvents (Some f) s) (events s)
   \<and> useSSEEvents None s = events s"
proof -
  have eq: "useSSEEvents (Some f) s =
     filter (\<lambda>e. (case sinceTs f of Some t \<Rightarrow> t = 0 \<or> t \<le> timestamp e | None \<Rightarrow> True)
               \<and> (case connectionIds f of
                     Some ids \<Rightarrow> ids = [] \<or> connectionId e \<in> set ids | None \<Rightarrow> True)
               \<and> (case types f of Some ts \<Rightarrow> ts = [] \<or> type e \<in> set ts | None \<Rightarrow> True)
               \<and> (case predicate f of Some p \<Rightarrow> p e | None \<Rightarrow> True)) (events s)"
    unfolding useSSEEvents_def Let_def
    by (auto split: option.splits intro: filter_cong)
  have "subseq (useSSEEvents (Some f) s) (events s)"
    unfolding eq by (rule subseq_filter_left)
  moreover have "useSSEEvents None s = events s"
    by (simp add: useSSEEvents_def)
  ultimately show ?thesis using eq by blast
qed

theorem useSSEEvents_filter_witness:
  "useSSEEvents (Some (no_filter\<lparr>connectionIds := Some [''a''], sinceTs := Some 2\<rparr>))
     (state (pushEvents [sample_event ''a'' ''message'' 1, sample_event ''b'' ''message'' 2,
                         sample_event ''a'' ''message'' 3] (new_Store 5))) =
     [sample_event ''a'' ''message'' 3]"
  using useSSEEvents_filter [of "no_filter\<lparr>connectionIds := Some [''a''], sinceTs := Some 2\<rparr>"
      "state (pushEvents [sample_event ''a'' ''message'' 1, sample_event ''b'' ''message'' 2,
                          sample_event ''a'' ''message'' 3] (new_Store 5))"]
  by (simp add: no_filter_def new_Store_def pushEvent_def notify_def sample_event_def
      splice0_def Let_def)

text \<open>
  The claim as it is worded fails where a supplied field is falsy: an empty
  \<open>connectionIds\<close> or \<open>types\<close> array selects every event, not none, and \<open>sinceTs = 0\<close>
  does not exclude an event with a negative timestamp.
\<close>

theorem useSSEEvents_filter_counterexample:
  "useSSEEvents (Some (no_filter\<lparr>connectionIds := Some []\<rparr>))
     (state (pushEvent (sample_event ''a'' ''message'' 1) (new_Store 5))) =
     [sample_event ''a'' ''message'' 1]
   \<and> spec_events (no_filter\<lparr>connectionIds := Some []\<rparr>)
     (state (pushEvent (sample_event ''a'' ''message'' 1) (new_Store 5))) = []
   \<and> useSSEEvents (Some (no_filter\<lparr>types := Some []\<rparr>))
     (state (pushEvent (sample_event ''a'' ''message'' 1) (new_Store 5))) =
     [sample_event ''a'' ''message'' 1]
   \<and> spec_events (no_filter\<lparr>types := Some []\<rparr>)
     (state (pushEvent (sample_event ''a'' ''message'' 1) (new_Store 5))) = []
   \<and> useSSEEvents (Some (no_filter\<lparr>sinceTs := Some 0\<rparr>))
     (state (pushEvent (sample_event ''a'' ''message'' (- 1)) (new_Store 5))) =
     [sample_event ''a'' ''message'' (- 1)]
   \<and> spec_events (no_filter\<lparr>sinceTs := Some 0\<rparr>)
     (state (pushEvent (sample_event ''a'' ''message'' (- 1)) (new_Store 5))) = []"
  by (simp add: useSSEEvents_def spec_events_def no_filter_def new_Store_def pushEvent_def
      notify_def sample_event_def Let_def)

section \<open>The latest matching event\<close>

lemma latest_loop_take:
  "n \<le> length arr \<Longrightarrow>
   latest_loop I T arr n =
     (let ms = filter (\<lambda>e. connectionId e \<in> I \<and> (case T of None \<Rightarrow> True | Some ts \<Rightarrow> type e \<in> ts))
                 (take n arr)
      in if ms = [] then None else Some (last ms))"
proof (induction n)
  case 0
  then show ?case by simp
next
  case (Suc n)
  then have t: "take (Suc n) arr = take n arr @ [arr ! n]"
    by (simp add: take_Suc_conv_app_nth)
  from Suc show ?case
    by (simp add: t Let_def split: option.splits)
qed

lemma live_loop_take:
  "n \<le> length arr \<Longrightarrow>
   live_loop since I T arr n =
     (let ms = filter (\<lambda>e. connectionId e \<in> I \<and> (case T of None \<Rightarrow> True | Some ts \<Rightarrow> type e \<in> ts))
                 (rev (takeWhile (\<lambda>e. since \<le> timestamp e) (rev (take n arr))))
      in if ms = [] then None else Some (last ms))"
proof (induction n)
  case 0
  then show ?case by simp
next
  case (Suc n)
  then have t: "take (Suc n) arr = take n arr @ [arr ! n]"
    by (simp add: take_Suc_conv_app_nth)
  from Suc show ?case
    by (simp add: t Let_def split: option.splits)
qed

text \<open>
  Claim C3. \<open>useSSEEvent\<close> returns the last event of the log (the most recently appended
  one) among those whose connection id is in the requested set and whose type is in the
  requested set (any type when the type argument is absent), and nothing when no event
  matches; on an empty log it returns nothing.
\<close>

theorem useSSEEvent_latest:
  "useSSEEvent cid ty s =
     (let ms = filter (\<lambda>e. connectionId e \<in> as_set cid
                          \<and> (case ty of None \<Rightarrow> True | Some t \<Rightarrow> type e \<in> as_set t)) (events s)
      in if ms = [] then None else Some (last ms))
   \<and> useSSEEvent cid ty (s\<lparr>events := []\<rparr>) = None"
proof -
  have "useSSEEvent cid ty s =
     (let ms = filter (\<lambda>e. connectionId e \<in> as_set cid
                          \<and> (case ty of None \<Rightarrow> True | Some t \<Rightarrow> type e \<in> as_set t)) (events s)
      in if ms = [] then None else Some (last ms))"
    by (cases ty) (simp_all add: useSSEEvent_def latest_loop_take Let_def)
  moreover have "useSSEEvent cid ty (s\<lparr>events := []\<rparr>) = None"
    by (simp add: useSSEEvent_def Let_def)
  ultimately show ?thesis by blast
qed

theorem useSSEEvent_latest_witness:
  "useSSEEvent (Many [''a'', ''b'']) (Some (One ''message''))
     (state (pushEvents [sample_event ''a'' ''message'' 1, sample_event ''b'' ''message'' 2,
                         sample_event ''a'' ''ping'' 3] (new_Store 5))) =
     Some (sample_event ''b'' ''message'' 2)
   \<and> useSSEEvent (One ''c'') None
     (state (pushEvents [sample_event ''a'' ''message'' 1, sample_event ''b'' ''message'' 2,
                         sample_event ''a'' ''ping'' 3] (new_Store 5))) = None"
  using useSSEEvent_latest [of "Many [''a'', ''b'']" "Some (One ''message'')"
      "state (pushEvents [sample_event ''a'' ''message'' 1, sample_event ''b'' ''message'' 2,
                          sample_event ''a'' ''ping'' 3] (new_Store 5))"]
    useSSEEvent_latest [of "One ''c''" None
      "state (pushEvents [sample_event ''a'' ''message'' 1, sample_event ''b'' ''message'' 2,
                          sample_event ''a'' ''ping'' 3] (new_Store 5))"]
  by (simp add: new_Store_def pushEvent_def notify_def sample_event_def splice0_def Let_def)

section \<open>The latest matching event since the mount instant\<close>

lemma liveSelector_char:
  "liveSelector since cid ty s =
     (let ms = filter (\<lambda>e. connectionId e \<in> as_set cid
                          \<and> (case ty of None \<Rightarrow> True | Some t \<Rightarrow> type e \<in> as_set t))
                 (rev (takeWhile (\<lambda>e. since \<le> timestamp e) (rev (events s))))
      in if ms = [] then None else Some (last ms))"
  by (cases ty) (simp_all add: liveSelector_def live_loop_take Let_def)

lemma trailing_after_older:
  assumes "timestamp x < since"
  shows "takeWhile (\<lambda>e. since \<le> timestamp e) (rev (pre @ x # post)) =
         takeWhile (\<lambda>e. since \<le> timestamp e) (rev post)"
proof (cases "\<forall>y\<in>set (rev post). since \<le> timestamp y")
  case True
  then have a: "takeWhile (\<lambda>e. since \<le> timestamp e) (rev post @ x # rev pre) =
             rev post @ takeWhile (\<lambda>e. since \<le> timestamp e) (x # rev pre)"
    by (intro takeWhile_append2) simp
  have b: "takeWhile (\<lambda>e. since \<le> timestamp e) (x # rev pre) = []"
    using assms by simp
  have c: "takeWhile (\<lambda>e. since \<le> timestamp e) (rev post) = rev post"
    using True by (simp add: takeWhile_eq_all_conv)
  have r: "rev (pre @ x # post) = rev post @ x # rev pre"
    by simp
  show ?thesis
    unfolding r a b c by simp
next
  case False
  then obtain y where "y \<in> set (rev post)" "\<not> since \<le> timestamp y" by blast
  then show ?thesis by (simp add: takeWhile_append1)
qed

text \<open>
  Claim C4. An event that the selector of \<open>useLiveSSEEvent\<close> returns for the mount instant
  \<open>since\<close> has a timestamp of at least \<open>since\<close> (and is a matching event of the log).
  The scan from the newest event stops at an event older than \<open>since\<close>: that event and
  everything before it have no influence on the result, whether they match or not, and
  the result is absent when no event after it matches.
\<close>

theorem liveSelector_since:
  "(\<forall>e. liveSelector since cid ty s = Some e \<longrightarrow>
        since \<le> timestamp e \<and> e \<in> set (events s) \<and> connectionId e \<in> as_set cid
        \<and> (case ty of None \<Rightarrow> True | Some t \<Rightarrow> type e \<in> as_set t))
   \<and> (\<forall>pre x post. events s = pre @ x # post \<and> timestamp x < since \<longrightarrow>
        liveSelector since cid ty s = liveSelector since cid ty (s\<lparr>events := post\<rparr>))
   \<and> (\<forall>pre x post. events s = pre @ x # post \<and> timestamp x < since
        \<and> (\<forall>y\<in>set post. \<not> (connectionId y \<in> as_set cid
               \<and> (case ty of None \<Rightarrow> True | Some t \<Rightarrow> type y \<in> as_set t))) \<longrightarrow>
        liveSelector since cid ty s = None)"
proof -
  let ?m = "\<lambda>e. connectionId e \<in> as_set cid
                \<and> (case ty of None \<Rightarrow> True | Some t \<Rightarrow> type e \<in> as_set t)"
  let ?tr = "\<lambda>evs. rev (takeWhile (\<lambda>e. since \<le> timestamp e) (rev evs))"
  have a: "since \<le> timestamp e \<and> e \<in> set (events s) \<and> ?m e"
    if "liveSelector since cid ty s = Some e" for e
  proof -
    from that have ne: "filter ?m (?tr (events s)) \<noteq> []"
      and e: "e = last (filter ?m (?tr (events s)))"
      by (auto simp: liveSelector_char Let_def split: if_splits)
    from ne e have "e \<in> set (filter ?m (?tr (events s)))"
      using last_in_set by blast
    then have m: "?m e" and "e \<in> set (takeWhile (\<lambda>e. since \<le> timestamp e) (rev (events s)))"
      by simp_all
    then have "since \<le> timestamp e" "e \<in> set (rev (events s))"
      by (auto dest: set_takeWhileD)
    with m show ?thesis by simp
  qed
  have b: "liveSelector since cid ty s = liveSelector since cid ty (s\<lparr>events := post\<rparr>)"
    if "events s = pre @ x # post" "timestamp x < since" for pre x post
  proof -
    have "events (s\<lparr>events := post\<rparr>) = post" by simp
    then show ?thesis
      by (simp only: liveSelector_char that(1) trailing_after_older [OF that(2)])
  qed
  have c: "liveSelector since cid ty s = None"
    if "events s = pre @ x # post" "timestamp x < since" "\<forall>y\<in>set post. \<not> ?m y"
    for pre x post
  proof -
    have "filter ?m (?tr post) = []"
      using that(3) by (auto simp: filter_empty_conv dest: set_takeWhileD)
    then have "liveSelector since cid ty (s\<lparr>events := post\<rparr>) = None"
      by (simp add: liveSelector_char Let_def)
    with b [OF that(1,2)] show ?thesis by simp
  qed
  from a b c show ?thesis by blast
qed

theorem liveSelector_since_witness:
  "events (state (pushEvents [sample_event ''a'' ''message'' 1, sample_event ''a'' ''message'' 2,
                              sample_event ''b'' ''message'' 7] (new_Store 5))) =
     [sample_event ''a'' ''message'' 1] @ sample_event ''a'' ''message'' 2
       # [sample_event ''b'' ''message'' 7]
   \<and> timestamp (sample_event ''a'' ''message'' 2) < 5
   \<and> connectionId (sample_event ''b'' ''message'' 7) \<notin> as_set (One ''a'')
   \<and> liveSelector 5 (One ''a'') None
         (state (pushEvents [sample_event ''a'' ''message'' 1, sample_event ''a'' ''message'' 2,
                             sample_event ''b'' ''message'' 7] (new_Store 5))) = None
   \<and> liveSelector 5 (One ''b'') None
         (state (pushEvents [sample_event ''a'' ''message'' 1, sample_event ''a'' ''message'' 2,
                             sample_event ''b'' ''message'' 7] (new_Store 5))) =
       Some (sample_event ''b'' ''message'' 7)
   \<and> 5 \<le> timestamp (sample_event ''b'' ''message'' 7)"
proof -
  let ?s = "state (pushEvents [sample_event ''a'' ''message'' 1, sample_event ''a'' ''message'' 2,
                               sample_event ''b'' ''message'' 7] (new_Store 5))"
  have ev: "events ?s = [sample_event ''a'' ''message'' 1] @ sample_event ''a'' ''message'' 2
       # [sample_event ''b'' ''message'' 7]"
    by (simp add: new_Store_def pushEvent_def notify_def Let_def)
  have old: "timestamp (sample_event ''a'' ''message'' 2) < 5"
    by (simp add: sample_event_def)
  have nomatch: "\<forall>y\<in>set [sample_event ''b'' ''message'' 7]. \<not> (connectionId y \<in> as_set (One ''a'')
          \<and> (case None of None \<Rightarrow> True | Some t \<Rightarrow> type y \<in> as_set t))"
    by (simp add: sample_event_def)
  have none: "liveSelector 5 (One ''a'') None ?s = None"
    using liveSelector_since [of 5 "One ''a''" None ?s] ev old nomatch by blast
  have some: "liveSelector 5 (One ''b'') None ?s = Some (sample_event ''b'' ''message'' 7)"
    by (simp only: liveSelector_char ev) (simp add: sample_event_def)
  have "5 \<le> timestamp (sample_event ''b'' ''message'' 7)"
    using liveSelector_since [of 5 "One ''b''" None ?s] some by blast
  moreover have "connectionId (sample_event ''b'' ''message'' 7) \<notin> as_set (One ''a'')"
    by (simp add: sample_event_def)
  ultimately show ?thesis using ev old none some by blast
qed

section \<open>Comparing with the identity of the tab\<close>

lemma getClientUid_cached:
  "truthy (cachedUid w) \<Longrightarrow> getClientUid w = (or_empty (cachedUid w), w)"
  by (simp add: getClientUid_def)

lemma getClientUid_no_window:
  "\<not> has_window w \<Longrightarrow> snd (getClientUid w) = w"
  by (simp add: getClientUid_def)

text \<open>
  Claim C9, as the code has it. \<open>isClientUid c\<close> is true exactly when \<open>c\<close> is a non-empty
  string equal to what \<open>getClientUid\<close> returns, and false for an absent and for an empty
  candidate, which leave the state alone. For any other candidate the state afterwards is
  the state after \<open>getClientUid\<close>: unchanged when an identity is cached (the answer is then
  whether \<open>c\<close> is the cached identity) and when there is no window.
\<close>

theorem isClientUid_identity:
  "fst (isClientUid c w) = (truthy c \<and> c = Some (fst (getClientUid w)))
   \<and> snd (isClientUid c w) = (if truthy c then snd (getClientUid w) else w)
   \<and> isClientUid None w = (False, w)
   \<and> isClientUid (Some []) w = (False, w)
   \<and> (truthy (cachedUid w) \<longrightarrow>
        fst (isClientUid c w) = (c = cachedUid w) \<and> snd (isClientUid c w) = w)
   \<and> (\<not> has_window w \<longrightarrow> snd (isClientUid c w) = w)"
proof -
  have 1: "fst (isClientUid c w) = (truthy c \<and> c = Some (fst (getClientUid w)))"
    by (simp add: isClientUid_def split_beta)
  have 2: "snd (isClientUid c w) = (if truthy c then snd (getClientUid w) else w)"
    by (simp add: isClientUid_def split_beta)
  have 3: "isClientUid None w = (False, w)" "isClientUid (Some []) w = (False, w)"
    by (simp_all add: isClientUid_def truthy_def)
  have 4: "fst (isClientUid c w) = (c = cachedUid w) \<and> snd (isClientUid c w) = w"
    if "truthy (cachedUid w)"
    using that unfolding 1 2 getClientUid_cached [OF that]
    by (cases "cachedUid w") (auto simp: truthy_def or_empty_def)
  have 5: "snd (isClientUid c w) = w" if "\<not> has_window w"
    unfolding 2 using getClientUid_no_window [OF that] by simp
  from 1 2 3 4 5 show ?thesis by blast
qed

theorem isClientUid_identity_witness:
  "truthy (cachedUid (sample_world\<lparr>cachedUid := Some ''u0''\<rparr>))
   \<and> isClientUid (Some ''u0'') (sample_world\<lparr>cachedUid := Some ''u0''\<rparr>) =
       (True, sample_world\<lparr>cachedUid := Some ''u0''\<rparr>)
   \<and> isClientUid (Some ''zz'') (sample_world\<lparr>cachedUid := Some ''u0''\<rparr>) =
       (False, sample_world\<lparr>cachedUid := Some ''u0''\<rparr>)
   \<and> \<not> has_window (sample_world\<lparr>has_window := False\<rparr>)
   \<and> isClientUid (Some ''zz'') (sample_world\<lparr>has_window := False\<rparr>) =
       (False, sample_world\<lparr>has_window := False\<rparr>)"
proof -
  let ?w = "sample_world\<lparr>cachedUid := Some ''u0''\<rparr>"
  let ?v = "sample_world\<lparr>has_window := False\<rparr>"
  have t: "truthy (cachedUid ?w)" by (simp add: truthy_def)
  have n: "\<not> has_window ?v" by simp
  have "fst (isClientUid (Some ''u0'') ?w) = (Some ''u0'' = cachedUid ?w)"
    "snd (isClientUid (Some ''u0'') ?w) = ?w"
    using isClientUid_identity [of "Some ''u0''" ?w] t by blast+
  then have a: "isClientUid (Some ''u0'') ?w = (True, ?w)"
    by (simp add: prod_eq_iff)
  have "fst (isClientUid (Some ''zz'') ?w) = (Some ''zz'' = cachedUid ?w)"
    "snd (isClientUid (Some ''zz'') ?w) = ?w"
    using isClientUid_identity [of "Some ''zz''" ?w] t by blast+
  then have b: "isClientUid (Some ''zz'') ?w = (False, ?w)"
    by (simp add: prod_eq_iff)
  have "fst (isClientUid (Some ''zz'') ?v) =
      (truthy (Some ''zz'') \<and> Some ''zz'' = Some (fst (getClientUid ?v)))"
    "snd (isClientUid (Some ''zz'') ?v) = ?v"
    using isClientUid_identity [of "Some ''zz''" ?v] n by blast+
  then have c: "isClientUid (Some ''zz'') ?v = (False, ?v)"
    by (simp add: prod_eq_iff getClientUid_def sample_world_def truthy_def)
  from t n a b c show ?thesis by blast
qed

text \<open>
  The claim as it is worded fails at the first access: with no identity cached yet,
  \<open>isClientUid\<close> on a non-empty candidate creates the identity, caches it and stores it
  in the session storage.
\<close>

theorem isClientUid_identity_counterexample:
  "cachedUid sample_world = None \<and> ss_uid sample_world = None \<and> drawn sample_world = 0
   \<and> fst (isClientUid (Some ''abc'') sample_world) = False
   \<and> cachedUid (snd (isClientUid (Some ''abc'') sample_world)) = Some ''u0''
   \<and> ss_uid (snd (isClientUid (Some ''abc'') sample_world)) = Some ''u0''
   \<and> drawn (snd (isClientUid (Some ''abc'') sample_world)) = 1
   \<and> snd (isClientUid (Some ''abc'') sample_world) \<noteq> sample_world"
proof -
  have r: "isClientUid (Some ''abc'') sample_world =
      (False, sample_world\<lparr>drawn := 1, ss_uid := Some ''u0'', cachedUid := Some ''u0''\<rparr>)"
    by (simp add: isClientUid_def getClientUid_def generateUid_def truthy_def or_empty_def
        sample_world_def sample_entropy_def)
  have "sample_world\<lparr>drawn := 1, ss_uid := Some ''u0'', cachedUid := Some ''u0''\<rparr> \<noteq> sample_world"
  proof
    assume "sample_world\<lparr>drawn := 1, ss_uid := Some ''u0'', cachedUid := Some ''u0''\<rparr> = sample_world"
    then have "cachedUid (sample_world\<lparr>drawn := 1, ss_uid := Some ''u0'', cachedUid := Some ''u0''\<rparr>)
        = cachedUid sample_world" by (rule arg_cong)
    then show False by (simp add: sample_world_def)
  qed
  then show ?thesis
    unfolding r by (simp add: sample_world_def)
qed

section \<open>The connection URL\<close>

lemma URL_new_getClientUid: "URL_new (snd (getClientUid w)) = URL_new w"
  by (simp add: getClientUid_def uid_in_memory_def generateUid_def Let_def split_beta)

lemma params_set_absent:
  "n \<notin> fst ` set ps \<Longrightarrow> params_set n v ps = ps @ [(n, v)]"
  by (induction ps) auto

lemma params_set_split:
  "\<exists>pre post. params_set n v ps = pre @ (n, v) # post
     \<and> pre @ post = filter (\<lambda>p. fst p \<noteq> n) ps"
proof (induction ps)
  case Nil
  show ?case by simp
next
  case (Cons p ps)
  obtain k x where p: "p = (k, x)" by (cases p)
  show ?case
  proof (cases "k = n")
    case True
    have "params_set n v (p # ps) = [] @ (n, v) # filter (\<lambda>p. fst p \<noteq> n) ps"
      using True p by simp
    moreover have "[] @ filter (\<lambda>p. fst p \<noteq> n) ps = filter (\<lambda>p. fst p \<noteq> n) (p # ps)"
      using True p by simp
    ultimately show ?thesis by blast
  next
    case False
    from Cons obtain pre post where
      ih: "params_set n v ps = pre @ (n, v) # post" "pre @ post = filter (\<lambda>p. fst p \<noteq> n) ps"
      by blast
    have "params_set n v (p # ps) = (p # pre) @ (n, v) # post"
      using False p ih by simp
    moreover have "(p # pre) @ post = filter (\<lambda>p. fst p \<noteq> n) (p # ps)"
      using False p ih by simp
    ultimately show ?thesis by blast
  qed
qed

lemma params_set_names:
  "k \<noteq> n \<Longrightarrow> k \<notin> fst ` set ps \<Longrightarrow> k \<notin> fst ` set (params_set n v ps)"
  by (induction ps) (force split: if_splits)+

lemma join_nonempty: "xs \<noteq> [] \<Longrightarrow> \<forall>x\<in>set xs. x \<noteq> [] \<Longrightarrow> join sep xs \<noteq> []"
  by (induction sep xs rule: join.induct) auto

lemma form_serialize_nonempty: "ps \<noteq> [] \<Longrightarrow> form_serialize ps \<noteq> []"
  unfolding form_serialize_def by (rule join_nonempty) auto

lemma buildUrl_fallback:
  assumes "fst (getClientUid w) = ident" "ident \<noteq> []" "token \<noteq> []" "URL_new w urlStr = None"
  shows "fst (buildUrl urlStr token tq w) =
     urlStr
     @ (if CHR ''?'' \<notin> set urlStr then ''?''
        else if endsWith urlStr (CHR ''?'') \<or> endsWith urlStr (CHR ''&'') then [] else ''&'')
     @ ''uid='' @ encodeURIComponent ident @ ''&''
     @ encodeURIComponent (case tq of None \<Rightarrow> ''authToken''
                            | Some k \<Rightarrow> if k = [] then ''authToken'' else k)
     @ ''='' @ encodeURIComponent token"
  using assms
  by (cases tq) (simp_all add: buildUrl_def Let_def split_beta URL_new_getClientUid)

lemma buildUrl_primary:
  assumes "fst (getClientUid w) = ident" "ident \<noteq> []" "token \<noteq> []"
    and "URL_new w urlStr = Some url"
    and "key = (case tq of None \<Rightarrow> ''authToken'' | Some k \<Rightarrow> if k = [] then ''authToken'' else k)"
    and "key \<noteq> ''uid''" "key \<notin> fst ` set (searchParams url)"
  shows "fst (buildUrl urlStr token tq w) =
       href_base url @ ''?''
       @ form_serialize (params_set ''uid'' ident (searchParams url) @ [(key, token)])
       @ (case fragment url of None \<Rightarrow> [] | Some f \<Rightarrow> ''#'' @ f)"
proof -
  have "key \<notin> fst ` set (params_set ''uid'' ident (searchParams url))"
    using assms(6,7) by (rule params_set_names)
  then have ps2: "params_set key token (params_set ''uid'' ident (searchParams url)) =
      params_set ''uid'' ident (searchParams url) @ [(key, token)]"
    by (rule params_set_absent)
  have ne: "form_serialize (params_set ''uid'' ident (searchParams url) @ [(key, token)]) \<noteq> []"
    by (rule form_serialize_nonempty) simp
  have kk: "(if (case tq of None \<Rightarrow> ''authToken'' | Some k \<Rightarrow> k) \<noteq> []
             then (case tq of None \<Rightarrow> ''authToken'' | Some k \<Rightarrow> k) else ''authToken'') = key"
    using assms(5) by (auto split: option.splits)
  have u: "URL_new (snd (getClientUid w)) urlStr = Some url"
    using assms(4) by (simp add: URL_new_getClientUid)
  have "fst (buildUrl urlStr token tq w) =
      URL_toString (searchParams_set key token (searchParams_set ''uid'' ident url))"
    unfolding buildUrl_def Let_def split_beta kk u
    using assms(1-3) by simp
  also have "\<dots> = href_base url @ ''?''
       @ form_serialize (params_set ''uid'' ident (searchParams url) @ [(key, token)])
       @ (case fragment url of None \<Rightarrow> [] | Some f \<Rightarrow> ''#'' @ f)"
    using ne by (simp add: searchParams_set_def URL_toString_def Let_def ps2)
  finally show ?thesis .
qed

text \<open>
  Claim C6, as the code has it, for a non-empty identity and a non-empty credential; the
  key of the credential parameter is \<open>authToken\<close> unless a non-empty key is given. When
  the URL constructor accepts the base URL, and the base URL has no parameter of the
  credential's key (which is not \<open>uid\<close> itself), the parameters of the result are those of
  the base URL after \<^verbatim>\<open>set("uid", identity)\<close>, followed by the credential parameter; the
  \<open>uid\<close> parameter is among the former, so the identity precedes the credential, with or
  without a query string in the base URL. When the constructor rejects the base URL, the
  result is the base URL followed by \<open>uid=...&key=...\<close>, joined with \<^verbatim>\<open>?\<close> when the base
  URL contains no \<^verbatim>\<open>?\<close>, with nothing when it ends with \<^verbatim>\<open>?\<close> or \<^verbatim>\<open>&\<close>, and with
  \<^verbatim>\<open>&\<close> otherwise.
\<close>

theorem buildUrl_identity_first:
  assumes "fst (getClientUid w) = ident" "ident \<noteq> []" "token \<noteq> []"
    and "key = (case tq of None \<Rightarrow> ''authToken'' | Some k \<Rightarrow> if k = [] then ''authToken'' else k)"
  shows "(\<forall>url. URL_new w urlStr = Some url \<and> key \<noteq> ''uid''
            \<and> key \<notin> fst ` set (searchParams url) \<longrightarrow>
          fst (buildUrl urlStr token tq w) =
            href_base url @ ''?''
            @ form_serialize (params_set ''uid'' ident (searchParams url) @ [(key, token)])
            @ (case fragment url of None \<Rightarrow> [] | Some f \<Rightarrow> ''#'' @ f))
       \<and> (\<forall>ps. \<exists>pre post. params_set ''uid'' ident ps = pre @ (''uid'', ident) # post
            \<and> pre @ post = filter (\<lambda>p. fst p \<noteq> ''uid'') ps)
       \<and> (URL_new w urlStr = None \<longrightarrow>
          fst (buildUrl urlStr token tq w) =
            urlStr
            @ (if CHR ''?'' \<notin> set urlStr then ''?''
               else if endsWith urlStr (CHR ''?'') \<or> endsWith urlStr (CHR ''&'') then []
               else ''&'')
            @ ''uid='' @ encodeURIComponent ident @ ''&''
            @ encodeURIComponent key @ ''='' @ encodeURIComponent token)"
proof (intro conjI allI impI)
  fix url
  assume "URL_new w urlStr = Some url \<and> key \<noteq> ''uid'' \<and> key \<notin> fst ` set (searchParams url)"
  then show "fst (buildUrl urlStr token tq w) =
            href_base url @ ''?''
            @ form_serialize (params_set ''uid'' ident (searchParams url) @ [(key, token)])
            @ (case fragment url of None \<Rightarrow> [] | Some f \<Rightarrow> ''#'' @ f)"
    using buildUrl_primary [OF assms(1-3) _ assms(4)] by blast
next
  fix ps
  show "\<exists>pre post. params_set ''uid'' ident ps = pre @ (''uid'', ident) # post
            \<and> pre @ post = filter (\<lambda>p. fst p \<noteq> ''uid'') ps"
    by (rule params_set_split)
next
  assume "URL_new w urlStr = None"
  then show "fst (buildUrl urlStr token tq w) =
            urlStr
            @ (if CHR ''?'' \<notin> set urlStr then ''?''
               else if endsWith urlStr (CHR ''?'') \<or> endsWith urlStr (CHR ''&'') then []
               else ''&'')
            @ ''uid='' @ encodeURIComponent ident @ ''&''
            @ encodeURIComponent key @ ''='' @ encodeURIComponent token"
    unfolding assms(4) by (rule buildUrl_fallback [OF assms(1-3)])
qed

lemma sample_identity: "fst (getClientUid sample_world) = ''u0''"
  by (simp add: getClientUid_def generateUid_def truthy_def or_empty_def sample_world_def
      sample_entropy_def)

theorem buildUrl_identity_first_witness:
  "fst (getClientUid sample_world) = ''u0''
   \<and> URL_new sample_world ''http://a b/sse?room=1'' = None
   \<and> fst (buildUrl ''http://a b/sse?room=1'' ''T1'' None sample_world) =
       ''http://a b/sse?room=1&uid=u0&authToken=T1''
   \<and> URL_new sample_world ''http://a b/sse'' = None
   \<and> fst (buildUrl ''http://a b/sse'' ''T1'' (Some ''tok'') sample_world) =
       ''http://a b/sse?uid=u0&tok=T1''
   \<and> fst (buildUrl ''https://x/sse?room=1'' ''T1'' None sample_world) =
       ''https://x/sse?room=1&uid=u0&authToken=T1''"
proof -
  have n1: "URL_new sample_world ''http://a b/sse?room=1'' = None"
    and n2: "URL_new sample_world ''http://a b/sse'' = None"
    by (simp_all add: sample_world_def sample_URL_new_def)
  have a: "fst (buildUrl ''http://a b/sse?room=1'' ''T1'' None sample_world) =
       ''http://a b/sse?room=1&uid=u0&authToken=T1''"
    using buildUrl_identity_first [OF sample_identity, of "''T1''" "''authToken''" None
        "''http://a b/sse?room=1''"] n1
    by (simp add: encodeURIComponent_def is_alnum_def endsWith_def)
  have b: "fst (buildUrl ''http://a b/sse'' ''T1'' (Some ''tok'') sample_world) =
       ''http://a b/sse?uid=u0&tok=T1''"
    using buildUrl_identity_first [OF sample_identity, of "''T1''" "''tok''" "Some ''tok''"
        "''http://a b/sse''"] n2
    by (simp add: encodeURIComponent_def is_alnum_def endsWith_def)
  have p: "URL_new sample_world ''https://x/sse?room=1'' =
      Some \<lparr>href_base = ''https://x/sse'', query = Some ''room=1'',
            searchParams = [(''room'', ''1'')], fragment = None\<rparr>"
    by (simp add: sample_world_def sample_URL_new_def)
  have c: "fst (buildUrl ''https://x/sse?room=1'' ''T1'' None sample_world) =
       ''https://x/sse?room=1&uid=u0&authToken=T1''"
    using buildUrl_identity_first [OF sample_identity, of "''T1''" "''authToken''" None
        "''https://x/sse?room=1''"] p
    by (simp add: form_serialize_def form_encode_def is_alnum_def)
  from sample_identity n1 n2 a b c show ?thesis by blast
qed

text \<open>
  The claim as it is worded fails at two inputs. A base URL that already has the
  credential's parameter keeps it in its place, before the identity
  (\<^verbatim>\<open>URLSearchParams.set\<close> replaces the value where the name stands). In the fallback
  path a base URL that ends with \<^verbatim>\<open>?\<close> is not joined with \<^verbatim>\<open>&\<close>.
\<close>

theorem buildUrl_identity_first_counterexample:
  "fst (buildUrl ''https://x/sse?authToken=old'' ''T1'' None sample_world) =
     ''https://x/sse?authToken=T1&uid=u0''
   \<and> spec_connection_url ''https://x/sse?authToken=old'' ''u0'' ''authToken'' ''T1'' =
     ''https://x/sse?authToken=old&uid=u0&authToken=T1''
   \<and> fst (buildUrl ''http://a b/sse?'' ''T1'' None sample_world) =
     ''http://a b/sse?uid=u0&authToken=T1''
   \<and> spec_connection_url ''http://a b/sse?'' ''u0'' ''authToken'' ''T1'' =
     ''http://a b/sse?&uid=u0&authToken=T1''"
  by (simp add: buildUrl_def getClientUid_def generateUid_def truthy_def or_empty_def
        sample_world_def sample_entropy_def sample_URL_new_def searchParams_set_def
        URL_toString_def form_serialize_def form_encode_def is_alnum_def Let_def
        encodeURIComponent_def endsWith_def spec_connection_url_def)

section \<open>Connecting\<close>

text \<open>
  When an \<^verbatim>\<open>EventSource\<close> is registered under the id of the configuration, \<open>connect\<close>
  changes nothing. The registration happens when the loader has delivered the token and
  the constructor of the \<^verbatim>\<open>EventSource\<close> has accepted the URL.
\<close>

lemma connect_registered:
  "sources (manager r) (cfg_id cfg) \<noteq> None \<Longrightarrow> connect cfg r = r"
  by (simp add: connect_def)

text \<open>
  Claim C7 asks that a second \<open>connect\<close> with the same id is a no-op. The code registers
  the id only after the \<^verbatim>\<open>await\<close>, so a second call made while the token of the first is
  loading passes the guard (whose comment reads \<^verbatim>\<open>already connected/connecting\<close>): it
  is not a no-op, it records the connecting state again, with a second notification of
  the listeners, and it calls the loader again.
\<close>

theorem connect_twice_while_loading:
  assumes "has_window (world r)" "has_EventSource r" "sources (manager r) (cfg_id cfg) = None"
  shows "connect cfg (connect cfg r) \<noteq> connect cfg r
     \<and> loading (connect cfg r) = loading r @ [cfg]
     \<and> loading (connect cfg (connect cfg r)) = loading r @ [cfg, cfg]
     \<and> invoked (store (manager (connect cfg r))) =
         invoked (store (manager r)) @ listeners (store (manager r))
     \<and> invoked (store (manager (connect cfg (connect cfg r)))) =
         invoked (store (manager r)) @ listeners (store (manager r)) @ listeners (store (manager r))"
proof -
  have l1: "loading (connect cfg r) = loading r @ [cfg]"
    and l2: "loading (connect cfg (connect cfg r)) = loading r @ [cfg, cfg]"
    and i1: "invoked (store (manager (connect cfg r))) =
         invoked (store (manager r)) @ listeners (store (manager r))"
    and i2: "invoked (store (manager (connect cfg (connect cfg r)))) =
         invoked (store (manager r)) @ listeners (store (manager r)) @ listeners (store (manager r))"
    using assms by (simp_all add: connect_def setConnection_def notify_def)
  have "connect cfg (connect cfg r) \<noteq> connect cfg r"
  proof
    assume "connect cfg (connect cfg r) = connect cfg r"
    then have "loading (connect cfg (connect cfg r)) = loading (connect cfg r)"
      by (rule arg_cong)
    then show False by (simp only: l1 l2) simp
  qed
  with l1 l2 i1 i2 show ?thesis by blast
qed

text \<open>
  At the sample configuration, when both tokens have arrived, two transports are open for
  the one id, and the manager knows the second only.
\<close>

theorem connect_twice_while_loading_witness:
  "has_window (world sample_runtime) \<and> has_EventSource sample_runtime
   \<and> sources (manager sample_runtime) (cfg_id sample_cfg) = None
   \<and> connect sample_cfg (connect sample_cfg sample_runtime) \<noteq> connect sample_cfg sample_runtime
   \<and> loading (connect sample_cfg (connect sample_cfg sample_runtime)) = [sample_cfg, sample_cfg]
   \<and> invoked (store (manager (connect sample_cfg (connect sample_cfg sample_runtime)))) = [7, 7]
   \<and> map es_url (transports (connect_resolved sample_cfg ''T2'' (connect_resolved sample_cfg ''T1''
         (connect sample_cfg (connect sample_cfg sample_runtime))))) =
       [''https://x/sse?uid=u0&authToken=T1'', ''https://x/sse?uid=u0&authToken=T2'']
   \<and> map es_closed (transports (connect_resolved sample_cfg ''T2'' (connect_resolved sample_cfg ''T1''
         (connect sample_cfg (connect sample_cfg sample_runtime))))) = [False, False]
   \<and> sources (manager (connect_resolved sample_cfg ''T2'' (connect_resolved sample_cfg ''T1''
         (connect sample_cfg (connect sample_cfg sample_runtime))))) ''a'' = Some 1"
proof -
  let ?r2 = "connect sample_cfg (connect sample_cfg sample_runtime)"
  let ?r4 = "connect_resolved sample_cfg ''T2'' (connect_resolved sample_cfg ''T1'' ?r2)"
  have h: "has_window (world sample_runtime)" "has_EventSource sample_runtime"
    "sources (manager sample_runtime) (cfg_id sample_cfg) = None"
    by (simp_all add: sample_runtime_def sample_world_def)
  have s0: "loading sample_runtime = []" "invoked (store (manager sample_runtime)) = []"
    "listeners (store (manager sample_runtime)) = [7]"
    by (simp_all add: sample_runtime_def subscribe_def new_Store_def)
  from connect_twice_while_loading [OF h] have
    "?r2 \<noteq> connect sample_cfg sample_runtime"
    "loading ?r2 = [sample_cfg, sample_cfg]"
    "invoked (store (manager ?r2)) = [7, 7]"
    by (simp_all add: s0)
  moreover have "map es_url (transports ?r4) =
       [''https://x/sse?uid=u0&authToken=T1'', ''https://x/sse?uid=u0&authToken=T2'']"
    "map es_closed (transports ?r4) = [False, False]"
    "sources (manager ?r4) ''a'' = Some 1"
    by (simp_all add: connect_resolved_def connect_def sample_runtime_def sample_cfg_def
        sample_EventSource_accepts_def
        buildUrl_def getClientUid_def generateUid_def truthy_def or_empty_def
        sample_world_def sample_entropy_def sample_URL_new_def searchParams_set_def
        URL_toString_def form_serialize_def form_encode_def is_alnum_def Let_def)
  ultimately show ?thesis using h by blast
qed

text \<open>
  Claim C8. When the loader of a connection fails with \<open>e\<close>, the stored state of the
  connection has status \<open>Error\<close> and the message \<open>token: e\<close>, the error callback of the
  host (when one is supplied) is called once with the id and \<open>e\<close>, and the attempt ends
  there: no \<^verbatim>\<open>EventSource\<close> is constructed and none is registered, neither by the handler
  nor in the whole attempt that began with \<open>connect\<close>.
\<close>

theorem connect_rejected_error:
  "connections (state (store (manager (connect_rejected cfg e r)))) (cfg_id cfg) =
     Some \<lparr>cs_id = Some (cfg_id cfg), cs_url = Some (cfg_url cfg), cs_status = Error,
           lastEvent = None, cs_error = Some (''token: '' @ e)\<rparr>
   \<and> host_calls (connect_rejected cfg e r) =
       host_calls r @ (if onError (callbacks (manager r)) then [OnError (cfg_id cfg) e] else [])
   \<and> sources (manager (connect_rejected cfg e r)) = sources (manager r)
   \<and> transports (connect_rejected cfg e r) = transports r
   \<and> loading (connect_rejected cfg e r) = remove1 cfg (loading r)
   \<and> sources (manager (connect_rejected cfg e (connect cfg r))) = sources (manager r)
   \<and> transports (connect_rejected cfg e (connect cfg r)) = transports r"
  by (simp add: connect_rejected_def connect_def setConnection_def notify_def property_key_def)

theorem connect_rejected_error_witness:
  "connections (state (store (manager
       (connect_rejected sample_cfg ''Error: no token'' (connect sample_cfg sample_runtime)))))
     ''a'' =
     Some \<lparr>cs_id = Some ''a'', cs_url = Some ''https://x/sse'', cs_status = Error,
           lastEvent = None, cs_error = Some ''token: Error: no token''\<rparr>
   \<and> host_calls (connect_rejected sample_cfg ''Error: no token'' (connect sample_cfg sample_runtime))
       = [OnError ''a'' ''Error: no token'']
   \<and> transports (connect_rejected sample_cfg ''Error: no token'' (connect sample_cfg sample_runtime))
       = []
   \<and> sources (manager
         (connect_rejected sample_cfg ''Error: no token'' (connect sample_cfg sample_runtime))) ''a''
       = None"
  using connect_rejected_error [of sample_cfg "''Error: no token''" "connect sample_cfg sample_runtime"]
    connect_rejected_error [of sample_cfg "''Error: no token''" sample_runtime]
  by (simp add: connect_def sample_runtime_def sample_cfg_def sample_world_def
      setConnection_def notify_def)

section \<open>Snapshots of the store\<close>

lemma get_state_append: "get_state h a = Some x \<Longrightarrow> get_state (h @ ext) a = Some x"
  by (auto simp: get_state_def nth_append split: if_splits)

lemma get_record_append: "get_record h a = Some x \<Longrightarrow> get_record (h @ ext) a = Some x"
  by (auto simp: get_record_def nth_append split: if_splits)

lemma get_array_append: "get_array h a = Some x \<Longrightarrow> get_array (h @ ext) a = Some x"
  by (auto simp: get_array_def nth_append split: if_splits)

lemma deref_append: "deref h a = Some v \<Longrightarrow> deref (h @ ext) a = Some v"
  by (auto simp: deref_def get_state_append get_record_append get_array_append
      split: option.splits prod.splits)

lemma deref_parts:
  "deref h a = Some st \<Longrightarrow>
   \<exists>c e. get_state h a = Some (c, e) \<and> get_record h c = Some (connections st)
         \<and> get_array h e = Some (events st)"
  by (auto simp: deref_def split: option.splits prod.splits)

lemma r_setConnection_step:
  assumes "deref h (r_state s) = Some st"
  shows "\<exists>ext. r_setConnection conn (s, h) =
           Some (r_notify (s\<lparr>r_state := Suc (length h)\<rparr>), h @ ext)
         \<and> deref (h @ ext) (Suc (length h)) =
             Some (st\<lparr>connections := (connections st)(property_key (cs_id conn) \<mapsto> conn)\<rparr>)"
proof -
  from deref_parts [OF assms] obtain c e where
    p: "get_state h (r_state s) = Some (c, e)" "get_record h c = Some (connections st)"
       "get_array h e = Some (events st)" by blast
  let ?ext = "[RecordObj ((connections st)(property_key (cs_id conn) \<mapsto> conn)), StateObj (length h) e]"
  have "r_setConnection conn (s, h) = Some (r_notify (s\<lparr>r_state := Suc (length h)\<rparr>), h @ ?ext)"
    using p by (simp add: r_setConnection_def alloc_def)
  moreover have "get_array (h @ ?ext) e = Some (events st)"
    using p(3) by (rule get_array_append)
  then have "deref (h @ ?ext) (Suc (length h)) =
      Some (st\<lparr>connections := (connections st)(property_key (cs_id conn) \<mapsto> conn)\<rparr>)"
    by (simp add: deref_def get_state_def get_record_def nth_append)
  ultimately show ?thesis by blast
qed

lemma r_removeConnection_step:
  assumes "deref h (r_state s) = Some st"
  shows "\<exists>ext. r_removeConnection i (s, h) =
           Some (r_notify (s\<lparr>r_state := Suc (length h)\<rparr>), h @ ext)
         \<and> deref (h @ ext) (Suc (length h)) =
             Some (st\<lparr>connections := (connections st)(i := None)\<rparr>)"
proof -
  from deref_parts [OF assms] obtain c e where
    p: "get_state h (r_state s) = Some (c, e)" "get_record h c = Some (connections st)"
       "get_array h e = Some (events st)" by blast
  let ?ext = "[RecordObj ((connections st)(i := None)), StateObj (length h) e]"
  have "r_removeConnection i (s, h) = Some (r_notify (s\<lparr>r_state := Suc (length h)\<rparr>), h @ ?ext)"
    using p by (simp add: r_removeConnection_def alloc_def)
  moreover have "get_array (h @ ?ext) e = Some (events st)"
    using p(3) by (rule get_array_append)
  then have "deref (h @ ?ext) (Suc (length h)) =
      Some (st\<lparr>connections := (connections st)(i := None)\<rparr>)"
    by (simp add: deref_def get_state_def get_record_def nth_append)
  ultimately show ?thesis by blast
qed

lemma r_pushEvent_step:
  assumes "deref h (r_state s) = Some st"
  shows "\<exists>ext. r_pushEvent msg (s, h) =
           Some (r_notify (s\<lparr>r_state := Suc (Suc (length h))\<rparr>), h @ ext)
         \<and> deref (h @ ext) (Suc (Suc (length h))) =
             Some (state (pushEvent msg \<lparr>maxEvents = r_maxEvents s, state = st,
                                          listeners = r_listeners s, invoked = r_invoked s\<rparr>))"
proof -
  from deref_parts [OF assms] obtain c e where
    p: "get_state h (r_state s) = Some (c, e)" "get_record h c = Some (connections st)"
       "get_array h e = Some (events st)" by blast
  let ?ev0 = "events st @ [msg]"
  let ?ev1 = "if int (length ?ev0) > r_maxEvents s
              then splice0 (int (length ?ev0) - r_maxEvents s) ?ev0 else ?ev0"
  let ?m = "(connections st)(connectionId msg \<mapsto>
              (case get_property (connections st) (connectionId msg) of
                 Own cs \<Rightarrow> cs
               | Inherited \<Rightarrow> \<lparr>cs_id = None, cs_url = None, cs_status = Open,
                               lastEvent = None, cs_error = None\<rparr>
               | Undefined \<Rightarrow> \<lparr>cs_id = Some (connectionId msg), cs_url = Some [],
                               cs_status = Open, lastEvent = None, cs_error = None\<rparr>)
              \<lparr>lastEvent := Some msg, cs_status := Open\<rparr>)"
  let ?ext = "[ArrayObj ?ev1, RecordObj ?m, StateObj (Suc (length h)) (length h)]"
  have "r_pushEvent msg (s, h) =
      Some (r_notify (s\<lparr>r_state := Suc (Suc (length h))\<rparr>), h @ ?ext)"
    using p by (simp add: r_pushEvent_def alloc_def Let_def)
  moreover have "deref (h @ ?ext) (Suc (Suc (length h))) =
      Some (state (pushEvent msg \<lparr>maxEvents = r_maxEvents s, state = st,
                                   listeners = r_listeners s, invoked = r_invoked s\<rparr>))"
    by (simp add: deref_def get_state_def get_record_def get_array_def nth_append
        pushEvent_def notify_def Let_def)
  ultimately show ?thesis by blast
qed


lemma abs_store_parts:
  "abs_store (s, h) = Some S \<Longrightarrow>
   deref h (r_state s) = Some (state S) \<and> maxEvents S = r_maxEvents s
   \<and> listeners S = r_listeners s \<and> invoked S = r_invoked s"
  by (auto simp: abs_store_def split: option.splits)

lemma r_apply_step:
  assumes "abs_store (s, h) = Some S"
  shows "\<exists>s' ext. r_apply m (s, h) = Some (s', h @ ext) \<and> length h \<le> r_state s'
           \<and> abs_store (s', h @ ext) = Some (apply_mutation m S)"
proof -
  from abs_store_parts [OF assms] have
    d: "deref h (r_state s) = Some (state S)" and
    f: "maxEvents S = r_maxEvents s" "listeners S = r_listeners s" "invoked S = r_invoked s"
    by simp_all
  have S: "S = \<lparr>maxEvents = r_maxEvents s, state = state S,
                  listeners = r_listeners s, invoked = r_invoked s\<rparr>"
    using f by simp
  show ?thesis
  proof (cases m)
    case (SetConnection conn)
    from r_setConnection_step [OF d, of conn] obtain ext where
      "r_setConnection conn (s, h) = Some (r_notify (s\<lparr>r_state := Suc (length h)\<rparr>), h @ ext)"
      "deref (h @ ext) (Suc (length h)) =
         Some ((state S)\<lparr>connections := (connections (state S))(property_key (cs_id conn) \<mapsto> conn)\<rparr>)"
      by blast
    then have "r_apply m (s, h) = Some (r_notify (s\<lparr>r_state := Suc (length h)\<rparr>), h @ ext)
        \<and> length h \<le> r_state (r_notify (s\<lparr>r_state := Suc (length h)\<rparr>))
        \<and> abs_store (r_notify (s\<lparr>r_state := Suc (length h)\<rparr>), h @ ext) =
            Some (apply_mutation m S)"
      using f by (simp add: SetConnection abs_store_def r_notify_def setConnection_def notify_def)
    then show ?thesis by blast
  next
    case (RemoveConnection i)
    from r_removeConnection_step [OF d, of i] obtain ext where
      "r_removeConnection i (s, h) = Some (r_notify (s\<lparr>r_state := Suc (length h)\<rparr>), h @ ext)"
      "deref (h @ ext) (Suc (length h)) =
         Some ((state S)\<lparr>connections := (connections (state S))(i := None)\<rparr>)"
      by blast
    then have "r_apply m (s, h) = Some (r_notify (s\<lparr>r_state := Suc (length h)\<rparr>), h @ ext)
        \<and> length h \<le> r_state (r_notify (s\<lparr>r_state := Suc (length h)\<rparr>))
        \<and> abs_store (r_notify (s\<lparr>r_state := Suc (length h)\<rparr>), h @ ext) =
            Some (apply_mutation m S)"
      using f by (simp add: RemoveConnection abs_store_def r_notify_def removeConnection_def
          notify_def)
    then show ?thesis by blast
  next
    case (PushEvent msg)
    from r_pushEvent_step [OF d, of msg] obtain ext where
      e: "r_pushEvent msg (s, h) =
         Some (r_notify (s\<lparr>r_state := Suc (Suc (length h))\<rparr>), h @ ext)"
      "deref (h @ ext) (Suc (Suc (length h))) =
         Some (state (pushEvent msg \<lparr>maxEvents = r_maxEvents s, state = state S,
                                      listeners = r_listeners s, invoked = r_invoked s\<rparr>))"
      by blast
    from e(2) have e2: "deref (h @ ext) (Suc (Suc (length h))) = Some (state (pushEvent msg S))"
      using S by simp
    have "pushEvent msg S = \<lparr>maxEvents = r_maxEvents s, state = state (pushEvent msg S),
          listeners = r_listeners s, invoked = r_invoked s @ r_listeners s\<rparr>"
      using f by (simp add: pushEvent_def notify_def Let_def)
    then have "abs_store (r_notify (s\<lparr>r_state := Suc (Suc (length h))\<rparr>), h @ ext) =
            Some (pushEvent msg S)"
      using e2 by (simp add: abs_store_def r_notify_def)
    with e(1) have "r_apply m (s, h) =
          Some (r_notify (s\<lparr>r_state := Suc (Suc (length h))\<rparr>), h @ ext)
        \<and> length h \<le> r_state (r_notify (s\<lparr>r_state := Suc (Suc (length h))\<rparr>))
        \<and> abs_store (r_notify (s\<lparr>r_state := Suc (Suc (length h))\<rparr>), h @ ext) =
            Some (apply_mutation m S)"
      by (simp add: PushEvent r_notify_def)
    then show ?thesis by blast
  qed
qed

lemma r_apply_all_steps:
  "abs_store (s, h) = Some S \<Longrightarrow>
   \<exists>s' ext. r_apply_all ms (s, h) = Some (s', h @ ext)
      \<and> (ms \<noteq> [] \<longrightarrow> length h \<le> r_state s')
      \<and> abs_store (s', h @ ext) = Some (fold apply_mutation ms S)"
proof (induction ms arbitrary: s h S)
  case Nil
  then have "r_apply_all [] (s, h) = Some (s, h @ [])
      \<and> abs_store (s, h @ []) = Some (fold apply_mutation [] S)"
    by simp
  then show ?case by blast
next
  case (Cons m ms)
  from r_apply_step [OF Cons.prems, of m] obtain s1 ext1 where
    1: "r_apply m (s, h) = Some (s1, h @ ext1)" "length h \<le> r_state s1"
       "abs_store (s1, h @ ext1) = Some (apply_mutation m S)"
    by blast
  from Cons.IH [OF 1(3)] obtain s2 ext2 where
    2: "r_apply_all ms (s1, h @ ext1) = Some (s2, (h @ ext1) @ ext2)"
       "ms \<noteq> [] \<longrightarrow> length (h @ ext1) \<le> r_state s2"
       "abs_store (s2, (h @ ext1) @ ext2) = Some (fold apply_mutation ms (apply_mutation m S))"
    by blast
  have "ms = [] \<Longrightarrow> s2 = s1"
    using 2(1) by simp
  with 1(2) 2(2) have "length h \<le> r_state s2"
    by (cases "ms = []") auto
  with 1(1) 2(1,3) have "r_apply_all (m # ms) (s, h) = Some (s2, h @ (ext1 @ ext2))
      \<and> (m # ms \<noteq> [] \<longrightarrow> length h \<le> r_state s2)
      \<and> abs_store (s2, h @ (ext1 @ ext2)) = Some (fold apply_mutation (m # ms) S)"
    by simp
  then show ?case by blast
qed

text \<open>
  Claim C10. Take a heap store that shows a state, and any sequence of \<open>setConnection\<close>,
  \<open>removeConnection\<close> and \<open>pushEvent\<close>. Every operation succeeds. The heap afterwards
  begins with the heap before: objects are only added, none that existed is written (the
  one write in place, \<^verbatim>\<open>splice\<close>, goes to the array that \<open>pushEvent\<close> has just created).
  So every reference to a state object shows afterwards the connection map and the event
  sequence it showed before, in particular the snapshot that \<open>getState\<close> returned before
  the mutations. After at least one mutation the state of the store is an object that did
  not exist before, and the store is the one that the operations on values compute.
\<close>

theorem store_snapshots_immutable:
  assumes "abs_store (s, h) = Some S"
  shows "\<exists>s' h'. r_apply_all ms (s, h) = Some (s', h')
      \<and> take (length h) h' = h
      \<and> (\<forall>a v. deref h a = Some v \<longrightarrow> deref h' a = Some v)
      \<and> deref h' (r_getState s) = Some (state S)
      \<and> (ms \<noteq> [] \<longrightarrow> length h \<le> r_getState s')
      \<and> abs_store (s', h') = Some (fold apply_mutation ms S)"
proof -
  from r_apply_all_steps [OF assms, of ms] obtain s' ext where
    r: "r_apply_all ms (s, h) = Some (s', h @ ext)"
       "ms \<noteq> [] \<longrightarrow> length h \<le> r_state s'"
       "abs_store (s', h @ ext) = Some (fold apply_mutation ms S)"
    by blast
  have "deref h (r_state s) = Some (state S)"
    using abs_store_parts [OF assms] by simp
  then have "deref (h @ ext) (r_getState s) = Some (state S)"
    unfolding r_getState_def by (rule deref_append)
  moreover have "take (length h) (h @ ext) = h"
    by simp
  moreover have "\<forall>a v. deref h a = Some v \<longrightarrow> deref (h @ ext) a = Some v"
    by (simp add: deref_append)
  ultimately show ?thesis
    using r unfolding r_getState_def by blast
qed


theorem store_snapshots_immutable_witness:
  "abs_store (r_new_Store 2) = Some (new_Store 2)
   \<and> r_apply_all
         [PushEvent (sample_event ''a'' ''message'' 1), PushEvent (sample_event ''a'' ''message'' 2),
          PushEvent (sample_event ''a'' ''message'' 3), RemoveConnection ''a'']
         (r_new_Store 2) \<noteq> None
   \<and> deref (snd (the (r_apply_all
         [PushEvent (sample_event ''a'' ''message'' 1), PushEvent (sample_event ''a'' ''message'' 2),
          PushEvent (sample_event ''a'' ''message'' 3), RemoveConnection ''a'']
         (r_new_Store 2)))) (r_getState (fst (r_new_Store 2))) = Some (state (new_Store 2))
   \<and> map_option events (deref (snd (the (r_apply_all
         [PushEvent (sample_event ''a'' ''message'' 1), PushEvent (sample_event ''a'' ''message'' 2),
          PushEvent (sample_event ''a'' ''message'' 3), RemoveConnection ''a'']
         (r_new_Store 2)))) (r_getState (fst (the (r_apply_all
         [PushEvent (sample_event ''a'' ''message'' 1), PushEvent (sample_event ''a'' ''message'' 2),
          PushEvent (sample_event ''a'' ''message'' 3), RemoveConnection ''a'']
         (r_new_Store 2)))))) =
       Some [sample_event ''a'' ''message'' 2, sample_event ''a'' ''message'' 3]"
proof -
  let ?ms = "[PushEvent (sample_event ''a'' ''message'' 1),
              PushEvent (sample_event ''a'' ''message'' 2),
              PushEvent (sample_event ''a'' ''message'' 3), RemoveConnection ''a'']"
  obtain s0 h0 where sh: "r_new_Store 2 = (s0, h0)"
    by (cases "r_new_Store 2")
  have a: "abs_store (r_new_Store 2) = Some (new_Store 2)"
    by (simp add: abs_store_def r_new_Store_def deref_def get_state_def get_record_def
        get_array_def new_Store_def)
  then have a': "abs_store (s0, h0) = Some (new_Store 2)"
    using sh by simp
  from store_snapshots_immutable [OF a', of ?ms] obtain s' h' where
    r: "r_apply_all ?ms (s0, h0) = Some (s', h')"
       "deref h' (r_getState s0) = Some (state (new_Store 2))"
       "abs_store (s', h') = Some (fold apply_mutation ?ms (new_Store 2))"
    by blast
  have e: "events (state (fold apply_mutation ?ms (new_Store 2))) =
      [sample_event ''a'' ''message'' 2, sample_event ''a'' ''message'' 3]"
    by (simp add: new_Store_def pushEvent_def removeConnection_def notify_def splice0_def Let_def)
  from r(3) have "deref h' (r_getState s') = Some (state (fold apply_mutation ?ms (new_Store 2)))"
    unfolding r_getState_def by (auto dest: abs_store_parts)
  with e have "map_option events (deref h' (r_getState s')) =
      Some [sample_event ''a'' ''message'' 2, sample_event ''a'' ''message'' 3]"
    by simp
  with a r(1,2) show ?thesis
    unfolding sh by simp
qed

end
